theory Spec2Isabelle
  imports Main
begin

section \<open>Text and character classes\<close>

text \<open>
  Text is a HOL \<open>string\<close>: a list of characters with code points 0 to 255. The classes
  below are the ones Python's \<open>re\<close> module uses for a \<open>str\<close> pattern, on that range:
  \<open>\s\<close> is \<open>str.isspace\<close>, \<open>\d\<close> the decimal digits, \<open>\w\<close> the alphanumeric characters
  and the underscore.
\<close>

abbreviation backslash :: char where
  "backslash \<equiv> CHR 0x5C"

abbreviation newline :: char where
  "newline \<equiv> CHR 0x0A"

definition is_space :: "char \<Rightarrow> bool" where
  "is_space c =
     (let n = (of_char c :: nat)
      in (9 \<le> n \<and> n \<le> 13) \<or> (28 \<le> n \<and> n \<le> 32) \<or> n = 133 \<or> n = 160)"

definition is_digit :: "char \<Rightarrow> bool" where
  "is_digit c = (let n = (of_char c :: nat) in 48 \<le> n \<and> n \<le> 57)"

definition is_ascii_letter :: "char \<Rightarrow> bool" where
  "is_ascii_letter c =
     (let n = (of_char c :: nat) in (65 \<le> n \<and> n \<le> 90) \<or> (97 \<le> n \<and> n \<le> 122))"

definition is_alnum :: "char \<Rightarrow> bool" where
  "is_alnum c =
     (let n = (of_char c :: nat)
      in is_ascii_letter c \<or> is_digit c
         \<or> n = 170 \<or> n = 178 \<or> n = 179 \<or> n = 181 \<or> n = 185 \<or> n = 186
         \<or> n = 188 \<or> n = 189 \<or> n = 190
         \<or> (192 \<le> n \<and> n \<le> 214) \<or> (216 \<le> n \<and> n \<le> 246) \<or> 248 \<le> n)"

definition is_word :: "char \<Rightarrow> bool" where
  "is_word c = (is_alnum c \<or> c = CHR ''_'')"

section \<open>The fragment of Python's regular expressions that the program uses\<close>

text \<open>
  The program builds its patterns as strings and hands them to \<open>re.match\<close>. The patterns
  of the catalog, and the frame \<open>^\s*LABEL\s*:\s*(\w+.*)$\<close> around a label, are sequences
  of single-character atoms, each taken once or under a greedy \<open>*\<close> or \<open>+\<close>, with groups
  and the anchors \<open>^\<close> and \<open>$\<close> between them. That fragment is modelled: a pattern string
  is parsed character by character as \<open>re\<close> does, and matched by backtracking in the
  priority order of \<open>re\<close> (longest repetition first). A pattern that \<open>re\<close> rejects gives
  \<open>Re_error\<close>. A pattern with syntax beyond the fragment gives \<open>Outside_fragment\<close>, whatever
  \<open>re\<close> makes of it: a \<open>?\<close>, \<open>{\<close>, \<open>[\<close> or \<open>|\<close> that is not escaped, a repetition
  sign after a repetition or after a group, and a backslash before a letter or a digit
  other than the six classes \<open>\s \d \w \S \D \W\<close>.

  The other values of \<open>failure\<close> are the ways a run of the program ends early:
  \<open>sys.exit\<close> with its status, and the exceptions that nobody catches.
\<close>

datatype failure =
    Sys_exit int
  | Name_error
  | Fixture_unreadable
  | Os_error
  | Called_process_error int
  | Value_error
  | Re_error
  | Index_error
  | Outside_fragment

datatype cclass =
    Lit char
  | Any_char
  | Space
  | Digit
  | Word
  | Not_space
  | Not_digit
  | Not_word

fun accepts :: "cclass \<Rightarrow> char \<Rightarrow> bool" where
  "accepts (Lit a) c = (c = a)"
| "accepts Any_char c = (c \<noteq> newline)"
| "accepts Space c = is_space c"
| "accepts Digit c = is_digit c"
| "accepts Word c = is_word c"
| "accepts Not_space c = (\<not> is_space c)"
| "accepts Not_digit c = (\<not> is_digit c)"
| "accepts Not_word c = (\<not> is_word c)"

datatype quant = Once | Star | Plus

datatype item =
    Atom cclass quant
  | Group_open nat
  | Group_close nat
  | Bol
  | Eol

record pstate =
  items_rev :: "item list"
  ngroups :: nat
  open_groups :: "nat list"
  esc :: bool

definition pstate_init :: pstate where
  "pstate_init = \<lparr>items_rev = [], ngroups = 0, open_groups = [], esc = False\<rparr>"

definition push :: "item \<Rightarrow> pstate \<Rightarrow> failure + pstate" where
  "push i st = Inr (st\<lparr>items_rev := i # items_rev st\<rparr>)"

text \<open>
  A repetition applies to the atom before it. With nothing before it, or an anchor or an
  opening parenthesis, \<open>re\<close> raises "nothing to repeat".
\<close>

definition repeat :: "quant \<Rightarrow> pstate \<Rightarrow> failure + pstate" where
  "repeat q st =
     (case items_rev st of
        [] \<Rightarrow> Inl Re_error
      | Atom a Once # r \<Rightarrow> Inr (st\<lparr>items_rev := Atom a q # r\<rparr>)
      | Atom a Star # r \<Rightarrow> Inl Outside_fragment
      | Atom a Plus # r \<Rightarrow> Inl Outside_fragment
      | Group_close n # r \<Rightarrow> Inl Outside_fragment
      | Group_open n # r \<Rightarrow> Inl Re_error
      | Bol # r \<Rightarrow> Inl Re_error
      | Eol # r \<Rightarrow> Inl Re_error)"

definition parse_escape :: "char \<Rightarrow> pstate \<Rightarrow> failure + pstate" where
  "parse_escape c st =
     (if c = CHR ''s'' then push (Atom Space Once) st
      else if c = CHR ''d'' then push (Atom Digit Once) st
      else if c = CHR ''w'' then push (Atom Word Once) st
      else if c = CHR ''S'' then push (Atom Not_space Once) st
      else if c = CHR ''D'' then push (Atom Not_digit Once) st
      else if c = CHR ''W'' then push (Atom Not_word Once) st
      else if is_ascii_letter c \<or> is_digit c then Inl Outside_fragment
      else push (Atom (Lit c) Once) st)"

definition parse_char :: "char \<Rightarrow> pstate \<Rightarrow> failure + pstate" where
  "parse_char c st =
     (if esc st then parse_escape c (st\<lparr>esc := False\<rparr>)
      else if c = backslash then Inr (st\<lparr>esc := True\<rparr>)
      else if c = CHR ''.'' then push (Atom Any_char Once) st
      else if c = CHR ''*'' then repeat Star st
      else if c = CHR ''+'' then repeat Plus st
      else if c = CHR ''?'' \<or> c = CHR ''{'' \<or> c = CHR ''['' \<or> c = CHR ''|''
        then Inl Outside_fragment
      else if c = CHR ''('' then
        Inr (st\<lparr>items_rev := Group_open (Suc (ngroups st)) # items_rev st,
                ngroups := Suc (ngroups st),
                open_groups := Suc (ngroups st) # open_groups st\<rparr>)
      else if c = CHR '')'' then
        (case open_groups st of
           [] \<Rightarrow> Inl Re_error
         | n # ns \<Rightarrow> Inr (st\<lparr>items_rev := Group_close n # items_rev st, open_groups := ns\<rparr>))
      else if c = CHR ''^'' then push Bol st
      else if c = CHR ''$'' then push Eol st
      else push (Atom (Lit c) Once) st)"

fun parse_chars :: "string \<Rightarrow> pstate \<Rightarrow> failure + pstate" where
  "parse_chars [] st = Inr st"
| "parse_chars (c # cs) st =
     (case parse_char c st of Inl e \<Rightarrow> Inl e | Inr st' \<Rightarrow> parse_chars cs st')"

record compiled =
  prog :: "item list"
  groups :: nat

definition re_compile :: "string \<Rightarrow> failure + compiled" where
  "re_compile p =
     (case parse_chars p pstate_init of
        Inl e \<Rightarrow> Inl e
      | Inr st \<Rightarrow>
          if esc st \<or> open_groups st \<noteq> [] then Inl Re_error
          else Inr \<lparr>prog = rev (items_rev st), groups = ngroups st\<rparr>)"

text \<open>
  The matcher. \<open>orig\<close> is the whole subject, \<open>s\<close> what is left of it; the marks are what
  was left of the subject where group 1 opened and where it closed. A \<open>*\<close> first takes one
  more character and comes back to take none only when the rest of the pattern fails
  after it. \<open>$\<close> holds at the end of the subject and before a newline that ends it; \<open>^\<close>
  holds at its start.
\<close>

type_synonym marks = "string option \<times> string option"

fun bt :: "string \<Rightarrow> item list \<Rightarrow> string \<Rightarrow> marks \<Rightarrow> marks option" where
  "bt orig [] s mk = Some mk"
| "bt orig (Atom a Once # r) [] mk = None"
| "bt orig (Atom a Once # r) (x # xs) mk = (if accepts a x then bt orig r xs mk else None)"
| "bt orig (Atom a Star # r) [] mk = bt orig r [] mk"
| "bt orig (Atom a Star # r) (x # xs) mk =
     (if accepts a x then
        (case bt orig (Atom a Star # r) xs mk of
           Some res \<Rightarrow> Some res
         | None \<Rightarrow> bt orig r (x # xs) mk)
      else bt orig r (x # xs) mk)"
| "bt orig (Atom a Plus # r) [] mk = None"
| "bt orig (Atom a Plus # r) (x # xs) mk =
     (if accepts a x then bt orig (Atom a Star # r) xs mk else None)"
| "bt orig (Group_open n # r) s mk = bt orig r s (if n = 1 then (Some s, None) else mk)"
| "bt orig (Group_close n # r) s mk = bt orig r s (if n = 1 then (fst mk, Some s) else mk)"
| "bt orig (Bol # r) s mk = (if length s = length orig then bt orig r s mk else None)"
| "bt orig (Eol # r) s mk = (if s = [] \<or> s = [newline] then bt orig r s mk else None)"

record match_object =
  re_groups :: nat
  re_marks :: marks

definition re_match :: "string \<Rightarrow> string \<Rightarrow> failure + match_object option" where
  "re_match pattern s =
     (case re_compile pattern of
        Inl e \<Rightarrow> Inl e
      | Inr p \<Rightarrow>
          Inr (case bt s (prog p) s (None, None) of
                 None \<Rightarrow> None
               | Some mk \<Rightarrow> Some \<lparr>re_groups = groups p, re_marks = mk\<rparr>))"

text \<open>
  \<open>m.group(1)\<close>: IndexError when the pattern has no group, \<open>None\<close> when group 1 took no
  part in the match, else the text between its marks.
\<close>

definition group_1 :: "match_object \<Rightarrow> failure + string option" where
  "group_1 m =
     (if re_groups m < 1 then Inl Index_error
      else Inr (case re_marks m of
                  (Some so, Some sc) \<Rightarrow> Some (take (length so - length sc) so)
                | _ \<Rightarrow> None))"

section \<open>The check catalog\<close>

record separator_rule =
  sep_regex :: string
  sep_label :: string

text \<open>
  A check's \<open>values\<close> are Python lists of strings, kept as lists: the engine unpacks each
  into three names, and the catalog has lists of two.
\<close>

record check =
  check_name :: string
  check_args :: "string list"
  check_test :: string
  check_separator :: "separator_rule option"
  check_values :: "string list list"

record binary_config =
  binary_path :: string
  binary_checks :: "check list"

definition megacli :: binary_config where
  "megacli =
     \<lparr>binary_path = ''/usr/local/sbin/megacli'',
      binary_checks =
        [\<lparr>check_name = ''Enclosure state'',
          check_args = [''-EncInfo'', ''-aALL''],
          check_test = ''megacli/enc.txt'',
          check_separator = None,
          check_values = [[''Status'', ''Normal'']]\<rparr>,
         \<lparr>check_name = ''Virtual drive state'',
          check_args = [''-LDInfo'', ''-Lall'', ''-aALL'', ''-NoLog''],
          check_test = ''megacli/ld.txt'',
          check_separator = None,
          check_values = [[''State'', ''Optimal''], [''Bad Blocks Exist'', ''No'']]\<rparr>,
         \<lparr>check_name = ''Physical drive state'',
          check_args = [''-PDList'', ''-aALL''],
          check_test = ''megacli/pd.txt'',
          check_separator = None,
          check_values =
            [[''Media Error Count'', ''0''],
             [''Predictive Failure Count'', ''0''],
             [''Firmware state'', ''Online, Spun Up''],
             [''Drive has flagged a S'' @ [backslash] @ ''.M'' @ [backslash] @ ''.A''
                @ [backslash] @ ''.R'' @ [backslash] @ ''.T alert'', ''No'']]\<rparr>,
         \<lparr>check_name = ''Patrol read state'',
          check_args = [''-AdpPR'', ''-Info'', ''-aALL'', ''-NoLog''],
          check_test = ''megacli/pr.txt'',
          check_separator = None,
          check_values = [[''Patrol Read Mode'', ''Auto'']]\<rparr>,
         \<lparr>check_name = ''Battery state'',
          check_args = [''-AdpBbuCmd'', ''-aALL'', ''-NoLog''],
          check_test = ''megacli/battery.txt'',
          check_separator = None,
          check_values = [[''Battery State'', ''Optimal'']]\<rparr>]\<rparr>"

definition arcconf_ad :: check where
  "arcconf_ad =
     \<lparr>check_name = ''Controller status'',
      check_args = [''GETCONFIG'', ''1'', ''AD''],
      check_test = ''arcconf/ad.txt'',
      check_separator = None,
      check_values =
        [[''Controller Status'', ''controller_has_error'', ''Optimal''],
         [''Logical devices/Failed/Degraded'', ''logical_device_degraded'', ''1/0/0''],
         [''Defunct disk drive count'', ''has_defunct_drives'', ''0'']]\<rparr>"

definition arcconf_ld :: check where
  "arcconf_ld =
     \<lparr>check_name = ''Logical device state'',
      check_args = [''GETCONFIG'', ''1'', ''LD''],
      check_test = ''arcconf/ld.txt'',
      check_separator = None,
      check_values =
        [[''Status of Logical Device'', ''logical_device_has_error'', ''Optimal''],
         [''Parity Initialization Status'', ''parity_initialization_incomplete'',
          ''Completed'']]\<rparr>"

definition arcconf_pd :: check where
  "arcconf_pd =
     \<lparr>check_name = ''Physical device state'',
      check_args = [''GETCONFIG'', ''1'', ''PD''],
      check_test = ''arcconf/pd.txt'',
      check_separator =
        Some \<lparr>sep_regex = [backslash] @ ''s+Device #('' @ [backslash] @ ''d+)'',
              sep_label = ''device''\<rparr>,
      check_values =
        [[''State'', ''drive_offline'', ''Online''],
         [''S.M.A.R.T. warnings'', ''drive_has_smart_warnings'', ''0''],
         [''Aborted Commands'', ''drive_has_aborted_commands'', ''0''],
         [''Bad Target Errors'', ''drive_has_bad_target_errors'', ''0''],
         [''Format Errors'', ''drive_has_format_errors'', ''0''],
         [''Hardware Errors'', ''drive_has_hardware_errors'', ''0''],
         [''Hard Read Errors'', ''drive_has_hw_read_errors'', ''0''],
         [''Hard Write Errors'', ''drive_has_hw_read_errors'', ''0''],
         [''Media Failures'', ''drive_has_media_failures'', ''0''],
         [''Not Ready Errors'', ''drive_has_not_ready_errors'', ''0''],
         [''Predictive Failures'', ''drive_has_predictive_failures'', ''0''],
         [''Scsi Bus Faults'', ''drive_has_scsi_bus_faults'', ''0'']]\<rparr>"

definition arcconf :: binary_config where
  "arcconf =
     \<lparr>binary_path = ''/usr/local/sbin/arcconf'',
      binary_checks = [arcconf_ad, arcconf_ld, arcconf_pd]\<rparr>"

definition BINARIES :: "(string \<times> binary_config) list" where
  "BINARIES = [(''megacli'', megacli), (''arcconf'', arcconf)]"

section \<open>The run's inputs\<close>

text \<open>
  The parsed command line, and what the run reads from the machine: whether a path is a
  file, the text of a file (\<open>None\<close> when it cannot be read), and what running a command
  gives (\<open>None\<close> when it cannot be started, else its return code and its output).
\<close>

record cli_args =
  vendor_binary :: string
  debug :: bool

datatype completed_process = Completed int string

record world =
  isfile :: "string \<Rightarrow> bool"
  read_text :: "string \<Rightarrow> string option"
  subprocess_run :: "string list \<Rightarrow> completed_process option"

datatype level = DEBUG | INFO | ERROR

type_synonym log_record = "level \<times> string"

text \<open>\<open>os.path.join\<close> of two components, on POSIX.\<close>

definition path_join :: "string \<Rightarrow> string \<Rightarrow> string" where
  "path_join a b =
     (if b \<noteq> [] \<and> hd b = CHR ''/'' then b
      else if a = [] \<or> last a = CHR ''/'' then a @ b
      else a @ ''/'' @ b)"

text \<open>
  \<open>str.splitlines\<close>: a line ends at a line boundary, \<open>\r\n\<close> counts as one, and an empty
  last piece is not a line. \<open>cur\<close> is the line being read, reversed.
\<close>

definition is_linebreak :: "char \<Rightarrow> bool" where
  "is_linebreak c =
     (let n = (of_char c :: nat) in (10 \<le> n \<and> n \<le> 13) \<or> (28 \<le> n \<and> n \<le> 30) \<or> n = 133)"

fun splitlines_from :: "string \<Rightarrow> string \<Rightarrow> string list" where
  "splitlines_from cur [] = (if cur = [] then [] else [rev cur])"
| "splitlines_from cur [c] = (if is_linebreak c then [rev cur] else [rev (c # cur)])"
| "splitlines_from cur (c # d # cs) =
     (if c = CHR 0x0D \<and> d = newline then rev cur # splitlines_from [] cs
      else if is_linebreak c then rev cur # splitlines_from [] (d # cs)
      else splitlines_from (c # cur) (d # cs))"

definition splitlines :: "string \<Rightarrow> string list" where
  "splitlines s = splitlines_from [] s"

section \<open>The engine\<close>

record metric_record =
  metric :: string
  label_name :: "string option"
  label_value :: "string option"
  status :: int
  metric_value :: "string option"

record scan_state =
  separator_value :: "string option"
  separator_label :: "string option"
  metrics :: "metric_record list"

text \<open>The pattern of the f-string \<open>^\s*{attribute_name}\s*:\s*(\w+.*)$\<close>.\<close>

definition attribute_pattern :: "string \<Rightarrow> string" where
  "attribute_pattern attribute_name =
     ''^'' @ [backslash] @ ''s*'' @ attribute_name @ [backslash] @ ''s*:''
       @ [backslash] @ ''s*('' @ [backslash] @ ''w+.*)$''"

definition update_separator :: "check \<Rightarrow> string \<Rightarrow> scan_state \<Rightarrow> failure + scan_state" where
  "update_separator c line st =
     (case check_separator c of
        None \<Rightarrow> Inr st
      | Some separator_dict \<Rightarrow>
          (case re_match (sep_regex separator_dict) line of
             Inl e \<Rightarrow> Inl e
           | Inr None \<Rightarrow> Inr st
           | Inr (Some res) \<Rightarrow>
               (case group_1 res of
                  Inl e \<Rightarrow> Inl e
                | Inr g \<Rightarrow>
                    Inr (st\<lparr>separator_value := g,
                            separator_label := Some (sep_label separator_dict)\<rparr>))))"

text \<open>One turn of the loop over \<open>check['values']\<close>.\<close>

definition match_value :: "string list \<Rightarrow> string \<Rightarrow> scan_state \<Rightarrow> failure + scan_state" where
  "match_value v line st =
     (case v of
        [attribute_name, metric_name, expected_value] \<Rightarrow>
          (case re_match (attribute_pattern attribute_name) line of
             Inl e \<Rightarrow> Inl e
           | Inr None \<Rightarrow> Inr st
           | Inr (Some res) \<Rightarrow>
               (case group_1 res of
                  Inl e \<Rightarrow> Inl e
                | Inr g \<Rightarrow>
                    Inr (st\<lparr>metrics := metrics st @
                            [\<lparr>metric = metric_name,
                              label_name = separator_label st,
                              label_value = separator_value st,
                              status = (if g \<noteq> Some expected_value then 1 else 0),
                              metric_value = g\<rparr>]\<rparr>)))
      | _ \<Rightarrow> Inl Value_error)"

fun scan_values :: "string list list \<Rightarrow> string \<Rightarrow> scan_state \<Rightarrow> failure + scan_state" where
  "scan_values [] line st = Inr st"
| "scan_values (v # vs) line st =
     (case match_value v line st of Inl e \<Rightarrow> Inl e | Inr st' \<Rightarrow> scan_values vs line st')"

definition scan_line :: "check \<Rightarrow> string \<Rightarrow> scan_state \<Rightarrow> failure + scan_state" where
  "scan_line c line st =
     (case update_separator c line st of
        Inl e \<Rightarrow> Inl e
      | Inr st' \<Rightarrow> scan_values (check_values c) line st')"

fun scan_lines :: "check \<Rightarrow> string list \<Rightarrow> scan_state \<Rightarrow> failure + scan_state" where
  "scan_lines c [] st = Inr st"
| "scan_lines c (line # rest) st =
     (case scan_line c line st of Inl e \<Rightarrow> Inl e | Inr st' \<Rightarrow> scan_lines c rest st')"

text \<open>
  Fetching a check's text. With \<open>--debug\<close> it is the fixture under \<open>mocks\<close>; else the
  binary runs with \<open>check=True\<close>, which raises on a return code other than 0 before the
  program's own test of the result.
\<close>

definition empty_result_msg :: string where
  "empty_result_msg = ''Vendor binary returned empty result or error.''"

definition fetch ::
  "cli_args \<Rightarrow> world \<Rightarrow> binary_config \<Rightarrow> check \<Rightarrow> log_record list \<times> (failure + string)" where
  "fetch a w binary c =
     (if debug a then
        (case read_text w (path_join ''mocks'' (check_test c)) of
           None \<Rightarrow> ([], Inl Fixture_unreadable)
         | Some cmd_res \<Rightarrow> ([], Inr cmd_res))
      else
        (case subprocess_run w (binary_path binary # check_args c) of
           None \<Rightarrow> ([], Inl Os_error)
         | Some (Completed returncode stdout) \<Rightarrow>
             if returncode \<noteq> 0 then ([], Inl (Called_process_error returncode))
             else if length stdout = 0 \<or> returncode \<noteq> 0
               then ([(ERROR, empty_result_msg)], Inl (Sys_exit 1))
             else ([], Inr stdout)))"

text \<open>
  The loop over the checks. Each check starts with both separator variables \<open>None\<close>;
  \<open>metrics\<close> is the one list of the whole run. The log is the sequence of calls to the
  logger.
\<close>

definition log_running :: "check \<Rightarrow> log_record" where
  "log_running c = (DEBUG, ''Running check: '' @ check_name c)"

fun run_checks ::
  "cli_args \<Rightarrow> world \<Rightarrow> binary_config \<Rightarrow> check list \<Rightarrow> log_record list \<Rightarrow> metric_record list
     \<Rightarrow> log_record list \<times> (failure + metric_record list)" where
  "run_checks a w binary [] lg ms = (lg, Inr ms)"
| "run_checks a w binary (c # cs) lg ms =
     (let lg1 = lg @ [log_running c]
      in case fetch a w binary c of
           (lg2, Inl e) \<Rightarrow> (lg1 @ lg2, Inl e)
         | (lg2, Inr cmd_res) \<Rightarrow>
             (case scan_lines c (splitlines cmd_res)
                     \<lparr>separator_value = None, separator_label = None, metrics = ms\<rparr> of
                Inl e \<Rightarrow> (lg1 @ lg2, Inl e)
              | Inr st \<Rightarrow> run_checks a w binary cs (lg1 @ lg2) (metrics st)))"

text \<open>
  \<open>collect_metrics\<close>. The name \<open>config\<close> is not defined anywhere in the program, so an
  empty \<open>--vendor-binary\<close> raises NameError.
\<close>

definition collect_metrics ::
  "cli_args \<Rightarrow> world \<Rightarrow> log_record list \<times> (failure + metric_record list)" where
  "collect_metrics a w =
     (if vendor_binary a = [] then ([], Inl Name_error)
      else
        (case map_of BINARIES (vendor_binary a) of
           None \<Rightarrow> ([(ERROR, ''Unknown binary or no binary specified.'')], Inl (Sys_exit 1))
         | Some binary \<Rightarrow>
             if \<not> debug a \<and> \<not> isfile w (binary_path binary)
               then ([(ERROR, ''Supporting vendor binary not found.'')], Inl (Sys_exit 1))
             else
               (case run_checks a w binary (binary_checks binary) [] [] of
                  (lg, Inl e) \<Rightarrow> (lg, Inl e)
                | (lg, Inr ms) \<Rightarrow>
                    (lg @ [(INFO, ''Finished checks for vendor '' @ vendor_binary a)],
                     Inr ms))))"

section \<open>Printing and the whole run\<close>

abbreviation dquote :: char where
  "dquote \<equiv> CHR 0x22"

function str_nat :: "nat \<Rightarrow> string" where
  "str_nat n =
     (if n < 10 then [char_of (48 + n)] else str_nat (n div 10) @ [char_of (48 + n mod 10)])"
  by pat_completeness auto
termination
  by (relation "measure (\<lambda>n. n)") auto

definition str_int :: "int \<Rightarrow> string" where
  "str_int i = (if i < 0 then ''-'' @ str_nat (nat (- i)) else str_nat (nat i))"

definition str_opt :: "string option \<Rightarrow> string" where
  "str_opt v = (case v of None \<Rightarrow> ''None'' | Some s \<Rightarrow> s)"

definition print_metric :: "cli_args \<Rightarrow> metric_record \<Rightarrow> string" where
  "print_metric a m =
     (case label_name m of
        Some ln \<Rightarrow>
          vendor_binary a @ ''_'' @ metric m @ ''{'' @ ln @ ''='' @ [dquote]
            @ str_opt (label_value m) @ [dquote] @ '',state='' @ [dquote]
            @ str_opt (metric_value m) @ [dquote] @ ''} '' @ str_int (status m)
      | None \<Rightarrow>
          vendor_binary a @ ''_'' @ metric m @ ''{state='' @ [dquote]
            @ str_opt (metric_value m) @ [dquote] @ ''} '' @ str_int (status m))"

definition print_all_metrics :: "cli_args \<Rightarrow> metric_record list \<Rightarrow> string list" where
  "print_all_metrics a ms = map (print_metric a) ms"

text \<open>
  The process: its exit status (1 for \<open>sys.exit(1)\<close> and for an exception nobody
  catches), the calls to the logger, and the lines \<open>print\<close> wrote.
\<close>

record run_result =
  exit_status :: int
  logged :: "log_record list"
  printed :: "string list"

definition exit_status_of :: "failure \<Rightarrow> int" where
  "exit_status_of e = (case e of Sys_exit n \<Rightarrow> n | _ \<Rightarrow> 1)"

definition main :: "cli_args \<Rightarrow> world \<Rightarrow> run_result" where
  "main a w =
     (case collect_metrics a w of
        (lg, Inl e) \<Rightarrow> \<lparr>exit_status = exit_status_of e, logged = lg, printed = []\<rparr>
      | (lg, Inr ms) \<Rightarrow> \<lparr>exit_status = 0, logged = lg, printed = print_all_metrics a ms\<rparr>)"

section \<open>What the specification says, as functions\<close>

text \<open>
  The specification describes the engine by what it yields. These definitions follow its
  words; the theorems below compare the engine with them.

  A rule matches a line when \<open>re.match\<close> succeeds on the rule's pattern; the observed
  value is group 1 of the match.
\<close>

definition observed :: "string \<Rightarrow> string \<Rightarrow> string option option" where
  "observed attribute_name line =
     (case re_match (attribute_pattern attribute_name) line of
        Inr (Some res) \<Rightarrow> (case group_1 res of Inr g \<Rightarrow> Some g | Inl e \<Rightarrow> None)
      | _ \<Rightarrow> None)"

definition fires :: "string list \<Rightarrow> string \<Rightarrow> bool" where
  "fires v line = (case v of [a, m, e] \<Rightarrow> observed a line \<noteq> None | _ \<Rightarrow> False)"

text \<open>
  The Metric Assembler: the record of one rule on one line, with status 0 when the
  observed value is the expected value and 1 otherwise.
\<close>

definition spec_record ::
  "string list \<Rightarrow> string \<Rightarrow> string option \<Rightarrow> string option \<Rightarrow> metric_record option" where
  "spec_record v line group_label group_value =
     (case v of
        [attribute_label, metric_name, expected_value] \<Rightarrow>
          (case observed attribute_label line of
             None \<Rightarrow> None
           | Some observed_value \<Rightarrow>
               Some \<lparr>metric = metric_name, label_name = group_label, label_value = group_value,
                     status = (if observed_value = Some expected_value then 0 else 1),
                     metric_value = observed_value\<rparr>)
      | _ \<Rightarrow> None)"

text \<open>
  The Separator Tracker: a line is a separator line when the separator pattern matches
  it, and the group of a line is the capture of the nearest separator line at or before
  it. \<open>nearest_separator\<close> takes the lines nearest first.
\<close>

definition separator_hit :: "separator_rule \<Rightarrow> string \<Rightarrow> string option option" where
  "separator_hit sep line =
     (case re_match (sep_regex sep) line of
        Inr (Some res) \<Rightarrow> (case group_1 res of Inr g \<Rightarrow> Some g | Inl e \<Rightarrow> None)
      | _ \<Rightarrow> None)"

fun nearest_separator :: "separator_rule \<Rightarrow> string list \<Rightarrow> string option option" where
  "nearest_separator sep [] = None"
| "nearest_separator sep (line # earlier) =
     (case separator_hit sep line of
        Some g \<Rightarrow> Some g
      | None \<Rightarrow> nearest_separator sep earlier)"

definition spec_group_value :: "check \<Rightarrow> string list \<Rightarrow> string option" where
  "spec_group_value c lines =
     (case check_separator c of
        None \<Rightarrow> None
      | Some sep \<Rightarrow> (case nearest_separator sep (rev lines) of None \<Rightarrow> None | Some g \<Rightarrow> g))"

definition spec_group_label :: "check \<Rightarrow> string list \<Rightarrow> string option" where
  "spec_group_label c lines =
     (case check_separator c of
        None \<Rightarrow> None
      | Some sep \<Rightarrow>
          (case nearest_separator sep (rev lines) of
             None \<Rightarrow> None
           | Some g \<Rightarrow> Some (sep_label sep)))"

text \<open>
  The records of a check: line by line in order and, on each line, rule by rule in
  order, each rule that matches giving one record. \<open>pre\<close> are the lines before.
\<close>

definition spec_line_records :: "check \<Rightarrow> string list \<Rightarrow> string \<Rightarrow> metric_record list" where
  "spec_line_records c pre line =
     List.map_filter
       (\<lambda>v. spec_record v line (spec_group_label c (pre @ [line]))
                              (spec_group_value c (pre @ [line])))
       (check_values c)"

fun spec_records_from :: "check \<Rightarrow> string list \<Rightarrow> string list \<Rightarrow> metric_record list" where
  "spec_records_from c pre [] = []"
| "spec_records_from c pre (line # rest) =
     spec_line_records c pre line @ spec_records_from c (pre @ [line]) rest"

definition spec_check_records :: "check \<Rightarrow> string list \<Rightarrow> metric_record list" where
  "spec_check_records c lines = spec_records_from c [] lines"

text \<open>
  The records of a run: check by check in order, each check's records from its own text
  alone.
\<close>

definition spec_run_records ::
  "cli_args \<Rightarrow> world \<Rightarrow> binary_config \<Rightarrow> check list \<Rightarrow> metric_record list" where
  "spec_run_records a w binary cs =
     concat (map (\<lambda>c. case snd (fetch a w binary c) of
                         Inr cmd_res \<Rightarrow> spec_check_records c (splitlines cmd_res)
                       | Inl e \<Rightarrow> []) cs)"

text \<open>The state a check starts in, and what it means for it to follow the lines read.\<close>

definition fresh :: "metric_record list \<Rightarrow> scan_state" where
  "fresh ms = \<lparr>separator_value = None, separator_label = None, metrics = ms\<rparr>"

definition tracks :: "check \<Rightarrow> string list \<Rightarrow> scan_state \<Rightarrow> bool" where
  "tracks c lines st =
     (separator_value st = spec_group_value c lines \<and>
      separator_label st = spec_group_label c lines)"


section \<open>Checks the engine can scan\<close>

text \<open>
  A rule is well formed when it is a list of three strings and the pattern around its
  label compiles; a check is well formed when its rules are and its separator pattern,
  if it has one, compiles and has a group.
\<close>

definition compiles_with_group :: "string \<Rightarrow> bool" where
  "compiles_with_group p = (case re_compile p of Inr cp \<Rightarrow> 1 \<le> groups cp | Inl e \<Rightarrow> False)"

definition well_formed_rule :: "string list \<Rightarrow> bool" where
  "well_formed_rule v =
     (case v of [a, m, e] \<Rightarrow> compiles_with_group (attribute_pattern a) | _ \<Rightarrow> False)"

definition well_formed_check :: "check \<Rightarrow> bool" where
  "well_formed_check c =
     (list_all well_formed_rule (check_values c) \<and>
      (case check_separator c of
         None \<Rightarrow> True
       | Some sep \<Rightarrow> compiles_with_group (sep_regex sep)))"

section \<open>Group 1 in the parser and in the matcher\<close>

text \<open>
  Whether group 1 has opened and closed: after a list of items of the pattern, as the
  marks of the matcher show it, and as the parser's state tells it. The parser keeps the
  two in step, which is why group 1 is text whenever a match has one.
\<close>

fun mark_step :: "bool \<times> bool \<Rightarrow> item \<Rightarrow> bool \<times> bool" where
  "mark_step k (Group_open n) = (if n = 1 then (True, False) else k)"
| "mark_step k (Group_close n) = (if n = 1 then (fst k, True) else k)"
| "mark_step k (Atom a q) = k"
| "mark_step k Bol = k"
| "mark_step k Eol = k"

definition marks_set :: "marks \<Rightarrow> bool \<times> bool" where
  "marks_set mk = (fst mk \<noteq> None, snd mk \<noteq> None)"

definition group_1_state :: "pstate \<Rightarrow> bool \<times> bool" where
  "group_1_state st =
     (if ngroups st = 0 then (False, False)
      else if 1 \<in> set (open_groups st) then (True, False)
      else (True, True))"

definition parser_inv :: "pstate \<Rightarrow> bool" where
  "parser_inv st =
     (foldl mark_step (False, False) (rev (items_rev st)) = group_1_state st \<and>
      list_all (\<lambda>n. 1 \<le> n \<and> n \<le> ngroups st) (open_groups st) \<and>
      distinct (open_groups st))"

section \<open>Labels that are literal text\<close>

text \<open>
  A label is placed in the pattern as it is written, so it is read as a regular
  expression. \<open>literal_of\<close> gives the text a label stands for when it has no
  metacharacter of its own: every character is an ordinary one or a punctuation
  character escaped with a backslash, as the dots of \<open>S\.M\.A\.R\.T\<close> in the catalog.
\<close>

definition is_special :: "char \<Rightarrow> bool" where
  "is_special c = (c = backslash \<or> c \<in> set ''.^$*+?{[|()'')"

fun literal_of :: "string \<Rightarrow> string option" where
  "literal_of [] = Some []"
| "literal_of [c] = (if is_special c then None else Some [c])"
| "literal_of (c # d # r) =
     (if c = backslash then
        (if is_ascii_letter d \<or> is_digit d then None
         else map_option ((#) d) (literal_of r))
      else if is_special c then None
      else map_option ((#) c) (literal_of (d # r)))"

text \<open>
  The program of the pattern around such a label, and the value a line holds after the
  label: what follows the label, white space, a colon and white space.
\<close>

definition lits :: "string \<Rightarrow> item list" where
  "lits t = map (\<lambda>c. Atom (Lit c) Once) t"

definition value_prog :: "item list" where
  "value_prog = [Group_open 1, Atom Word Plus, Atom Any_char Star, Group_close 1, Eol]"

definition after_label :: "item list" where
  "after_label = [Atom Space Star, Atom (Lit CHR '':'') Once, Atom Space Star] @ value_prog"

definition value_after :: "string \<Rightarrow> string \<Rightarrow> string" where
  "value_after t line =
     dropWhile is_space
       (tl (dropWhile is_space
              (drop (length (dropWhile is_space t)) (dropWhile is_space line))))"

section \<open>Sample inputs\<close>

text \<open>
  A check whose two labels both match a \<open>State\<close> line, a machine that holds the three
  fixtures of \<open>arcconf\<close>, a machine where the binary is installed and every command gives
  what \<open>run\<close> says, and small texts in the format of the tool.
\<close>

definition overlapping :: check where
  "overlapping =
     \<lparr>check_name = ''Overlapping labels'', check_args = [], check_test = ''none'',
      check_separator = None,
      check_values = [[''State'', ''first'', ''Online''], [''Sta.e'', ''second'', ''Offline'']]\<rparr>"

definition fixtures :: "string \<Rightarrow> string \<Rightarrow> string \<Rightarrow> world" where
  "fixtures ad ld pd =
     \<lparr>isfile = (\<lambda>p. False),
      read_text = map_of [(''mocks/arcconf/ad.txt'', ad), (''mocks/arcconf/ld.txt'', ld),
                          (''mocks/arcconf/pd.txt'', pd)],
      subprocess_run = (\<lambda>argv. None)\<rparr>"

definition live_world :: "(string list \<Rightarrow> completed_process option) \<Rightarrow> world" where
  "live_world run = \<lparr>isfile = (\<lambda>p. True), read_text = (\<lambda>p. None), subprocess_run = run\<rparr>"

definition sample_ad :: string where
  "sample_ad = ''Controller Status : Optimal'' @ [newline]"

definition sample_ld :: string where
  "sample_ld = ''Logical device number 0'' @ [newline]
     @ ''   Status of Logical Device : Degraded'' @ [newline]"

definition sample_pd :: string where
  "sample_pd = ''      Device #0'' @ [newline]
     @ ''         State : Online'' @ [newline]
     @ ''      Device #12'' @ [newline]
     @ ''         State : Failed'' @ [newline]"

definition debug_arcconf :: cli_args where
  "debug_arcconf = \<lparr>vendor_binary = ''arcconf'', debug = True\<rparr>"



definition other_machine :: world where
  "other_machine =
     \<lparr>isfile = (\<lambda>p. True),
      read_text = map_of [(''/etc/raid-monitor.conf'', ''[vendor]''),
                          (''mocks/arcconf/pd.txt'', sample_pd),
                          (''mocks/arcconf/ld.txt'', sample_ld),
                          (''mocks/arcconf/ad.txt'', sample_ad)],
      subprocess_run = (\<lambda>argv. Some (Completed 0 ''Controller Status : Failed''))\<rparr>"

definition pd_before :: "string list" where
  "pd_before = [''      Device #0'', ''   State : Online'', ''      Device #12'']"

definition pd_line :: string where
  "pd_line = ''   State : Failed''"

definition pd_state_1 :: scan_state where
  "pd_state_1 =
     \<lparr>separator_value = Some ''12'', separator_label = Some ''device'',
      metrics =
        [\<lparr>metric = ''drive_offline'', label_name = Some ''device'',
          label_value = Some ''0'', status = 0, metric_value = Some ''Online''\<rparr>]\<rparr>"

definition pd_state_2 :: scan_state where
  "pd_state_2 =
     \<lparr>separator_value = Some ''12'', separator_label = Some ''device'',
      metrics =
        [\<lparr>metric = ''drive_offline'', label_name = Some ''device'',
          label_value = Some ''0'', status = 0, metric_value = Some ''Online''\<rparr>,
         \<lparr>metric = ''drive_offline'', label_name = Some ''device'',
          label_value = Some ''12'', status = 1, metric_value = Some ''Failed''\<rparr>]\<rparr>"

definition sample_records :: "metric_record list" where
  "sample_records =
     [\<lparr>metric = ''controller_has_error'', label_name = None,
       label_value = None, status = 0, metric_value = Some ''Optimal''\<rparr>,
      \<lparr>metric = ''logical_device_has_error'', label_name = None,
       label_value = None, status = 1, metric_value = Some ''Degraded''\<rparr>,
      \<lparr>metric = ''drive_offline'', label_name = Some ''device'',
       label_value = Some ''0'', status = 0, metric_value = Some ''Online''\<rparr>,
      \<lparr>metric = ''drive_offline'', label_name = Some ''device'',
       label_value = Some ''12'', status = 1, metric_value = Some ''Failed''\<rparr>]"

text \<open>The label of \<open>megacli\<close> for the S.M.A.R.T. alert, with its escaped dots.\<close>

definition smart_alert :: string where
  "smart_alert = ''Drive has flagged a S'' @ [backslash] @ ''.M'' @ [backslash] @ ''.A''
                   @ [backslash] @ ''.R'' @ [backslash] @ ''.T alert''"

section \<open>The scan of a check computes the records of the specification\<close>

lemma match_value_spec:
  assumes "match_value v line st = Inr st'"
  shows "st' = st\<lparr>metrics := metrics st @
            (case spec_record v line (separator_label st) (separator_value st) of
               None \<Rightarrow> [] | Some r \<Rightarrow> [r])\<rparr>"
  using assms
  by (auto simp: match_value_def spec_record_def observed_def
           split: list.splits sum.splits option.splits)

lemma scan_values_spec:
  "scan_values vs line st = Inr st' \<Longrightarrow>
     st' = st\<lparr>metrics := metrics st @
             List.map_filter (\<lambda>v. spec_record v line (separator_label st) (separator_value st)) vs\<rparr>"
proof (induction vs arbitrary: st)
  case Nil
  then show ?case by (simp add: List.map_filter_simps)
next
  case (Cons v vs)
  from Cons.prems obtain st1 where a: "match_value v line st = Inr st1"
    and b: "scan_values vs line st1 = Inr st'"
    by (auto split: sum.splits)
  note s1 = match_value_spec[OF a]
  have sl: "separator_label st1 = separator_label st" "separator_value st1 = separator_value st"
    by (subst s1, simp)+
  show ?case
    using Cons.IH[OF b] sl
    by (subst (asm) s1) (auto simp: List.map_filter_simps split: option.splits)
qed

lemma update_separator_tracks:
  assumes "update_separator c line st = Inr st'" and "tracks c pre st"
  shows "tracks c (pre @ [line]) st' \<and> metrics st' = metrics st"
  using assms
  by (auto simp: update_separator_def tracks_def spec_group_value_def spec_group_label_def
                 separator_hit_def
           split: option.splits sum.splits)

lemma scan_values_frame:
  assumes "scan_values vs line st = Inr st'"
  shows "separator_value st' = separator_value st" "separator_label st' = separator_label st"
  by (subst scan_values_spec[OF assms], simp)+

lemma scan_line_spec:
  assumes "scan_line c line st = Inr st'" and "tracks c pre st"
  shows "tracks c (pre @ [line]) st'"
    and "metrics st' = metrics st @
           List.map_filter (\<lambda>v. spec_record v line (spec_group_label c (pre @ [line]))
                                   (spec_group_value c (pre @ [line]))) (check_values c)"
proof -
  from assms(1) obtain st1 where a: "update_separator c line st = Inr st1"
    and b: "scan_values (check_values c) line st1 = Inr st'"
    by (auto simp: scan_line_def split: sum.splits)
  from update_separator_tracks[OF a assms(2)]
  have t1: "tracks c (pre @ [line]) st1" and m1: "metrics st1 = metrics st" by simp_all
  show "tracks c (pre @ [line]) st'"
    using t1 scan_values_frame[OF b] by (simp add: tracks_def)
  show "metrics st' = metrics st @
           List.map_filter (\<lambda>v. spec_record v line (spec_group_label c (pre @ [line]))
                                   (spec_group_value c (pre @ [line]))) (check_values c)"
    using t1 m1 by (subst scan_values_spec[OF b]) (simp add: tracks_def)
qed

lemma tracks_fresh: "tracks c [] (fresh ms)"
  by (simp add: tracks_def fresh_def spec_group_value_def spec_group_label_def
           split: option.splits)

lemma scan_lines_tracks:
  "scan_lines c lines st = Inr st' \<Longrightarrow> tracks c pre st \<Longrightarrow> tracks c (pre @ lines) st'"
proof (induction lines arbitrary: st pre)
  case Nil
  then show ?case by simp
next
  case (Cons l ls)
  from Cons.prems(1) obtain st1 where a: "scan_line c l st = Inr st1"
    and b: "scan_lines c ls st1 = Inr st'"
    by (auto split: sum.splits)
  have "tracks c ((pre @ [l]) @ ls) st'"
    by (rule Cons.IH[OF b scan_line_spec(1)[OF a Cons.prems(2)]])
  then show ?case by simp
qed

lemma scan_lines_from:
  "scan_lines c lines st = Inr st' \<Longrightarrow> tracks c pre st \<Longrightarrow>
     metrics st' = metrics st @ spec_records_from c pre lines"
proof (induction lines arbitrary: st pre)
  case Nil
  then show ?case by simp
next
  case (Cons l ls)
  from Cons.prems(1) obtain st1 where a: "scan_line c l st = Inr st1"
    and b: "scan_lines c ls st1 = Inr st'"
    by (auto split: sum.splits)
  note t1 = scan_line_spec(1)[OF a Cons.prems(2)]
  note m1 = scan_line_spec(2)[OF a Cons.prems(2)]
  show ?case
    using Cons.IH[OF b t1] m1 by (simp add: spec_line_records_def)
qed

lemma scan_lines_fresh:
  "scan_lines c lines (fresh ms) = Inr st' \<Longrightarrow> metrics st' = ms @ spec_check_records c lines"
  using scan_lines_from[OF _ tracks_fresh, of c lines ms st']
  by (simp add: spec_check_records_def fresh_def)

lemma spec_record_fires: "(\<exists>r. spec_record v line gl gv = Some r) = fires v line"
  by (auto simp: spec_record_def fires_def split: list.splits option.splits)

lemma length_map_filter: "length (List.map_filter f xs) = length (filter (\<lambda>x. \<exists>y. f x = Some y) xs)"
  by (induction xs) (auto simp: List.map_filter_simps split: option.splits)

lemma length_spec_line_records:
  "length (spec_line_records c pre line) = length (filter (\<lambda>v. fires v line) (check_values c))"
  by (simp add: spec_line_records_def length_map_filter spec_record_fires)

lemma length_spec_records_from:
  "length (spec_records_from c pre lines) =
     sum_list (map (\<lambda>line. length (filter (\<lambda>v. fires v line) (check_values c))) lines)"
  by (induction lines arbitrary: pre) (simp_all add: length_spec_line_records)


lemma spec_record_group:
  "spec_record v line gl gv = Some r \<Longrightarrow> label_name r = gl \<and> label_value r = gv"
  by (auto simp: spec_record_def split: list.splits option.splits)

lemma in_map_filter: "r \<in> set (List.map_filter f xs) \<Longrightarrow> \<exists>x\<in>set xs. f x = Some r"
  by (induction xs) (auto simp: List.map_filter_simps split: option.splits)


lemma run_checks_records:
  "run_checks a w binary cs lg ms = (lg', Inr out) \<Longrightarrow>
     out = ms @ spec_run_records a w binary cs"
proof (induction cs arbitrary: lg ms)
  case Nil
  then show ?case by (simp add: spec_run_records_def)
next
  case (Cons c cs)
  from Cons.prems obtain lg2 cmd_res st where f: "fetch a w binary c = (lg2, Inr cmd_res)"
    and s: "scan_lines c (splitlines cmd_res) (fresh ms) = Inr st"
    and r: "run_checks a w binary cs
              ((lg @ [log_running c]) @ lg2) (metrics st)
            = (lg', Inr out)"
    by (auto simp: Let_def fresh_def split: prod.splits sum.splits)
  from Cons.IH[OF r] scan_lines_fresh[OF s] f show ?case
    by (simp add: spec_run_records_def)
qed

lemma line_records_after:
  assumes "scan_lines c pre (fresh ms) = Inr st1" and "scan_line c line st1 = Inr st2"
  shows "metrics st2 = metrics st1 @ spec_line_records c pre line"
proof -
  have "tracks c ([] @ pre) st1"
    by (rule scan_lines_tracks[OF assms(1) tracks_fresh])
  then have "tracks c pre st1" by simp
  from scan_line_spec(2)[OF assms(2) this] show ?thesis
    by (simp add: spec_line_records_def)
qed

lemma spec_line_records_group:
  assumes "r \<in> set (spec_line_records c pre line)"
  shows "label_name r = spec_group_label c (pre @ [line])"
    and "label_value r = spec_group_value c (pre @ [line])"
proof -
  from assms obtain v where
    "spec_record v line (spec_group_label c (pre @ [line]))
       (spec_group_value c (pre @ [line])) = Some r"
    unfolding spec_line_records_def by (blast dest: in_map_filter)
  from spec_record_group[OF this]
  show "label_name r = spec_group_label c (pre @ [line])"
    and "label_value r = spec_group_value c (pre @ [line])" by simp_all
qed

section \<open>The scan of a well-formed check does not fail\<close>

lemma compiles_match:
  assumes "compiles_with_group p"
  shows "re_match p s = Inr None \<or> (\<exists>m g. re_match p s = Inr (Some m) \<and> group_1 m = Inr g)"
proof -
  from assms obtain cp where c: "re_compile p = Inr cp" and g: "1 \<le> groups cp"
    by (auto simp: compiles_with_group_def split: sum.splits)
  show ?thesis
  proof (cases "bt s (prog cp) s (None, None)")
    case None
    with c show ?thesis by (simp add: re_match_def)
  next
    case (Some mk)
    with c g show ?thesis by (simp add: re_match_def group_1_def)
  qed
qed

lemma well_formed_match_value:
  "well_formed_rule v \<Longrightarrow> \<exists>st'. match_value v line st = Inr st'"
proof -
  assume w: "well_formed_rule v"
  then obtain a m e where v: "v = [a, m, e]" and c: "compiles_with_group (attribute_pattern a)"
    by (auto simp: well_formed_rule_def split: list.splits)
  from compiles_match[OF c, of line] v show ?thesis
    by (auto simp: match_value_def)
qed

lemma well_formed_scan_values:
  "list_all well_formed_rule vs \<Longrightarrow> \<exists>st'. scan_values vs line st = Inr st'"
proof (induction vs arbitrary: st)
  case Nil
  then show ?case by simp
next
  case (Cons v vs)
  from Cons.prems well_formed_match_value[of v line st]
  obtain st1 where "match_value v line st = Inr st1" by auto
  with Cons.IH[of st1] Cons.prems show ?case by simp
qed

lemma well_formed_update_separator:
  "well_formed_check c \<Longrightarrow> \<exists>st'. update_separator c line st = Inr st'"
proof (cases "check_separator c")
  case None
  then show ?thesis by (simp add: update_separator_def)
next
  case (Some sep)
  assume "well_formed_check c"
  with Some have "compiles_with_group (sep_regex sep)"
    by (simp add: well_formed_check_def)
  from compiles_match[OF this, of line] Some show ?thesis
    by (auto simp: update_separator_def)
qed

lemma well_formed_scan_line:
  assumes "well_formed_check c"
  shows "\<exists>st'. scan_line c line st = Inr st'"
proof -
  from well_formed_update_separator[OF assms, of line st]
  obtain st1 where u: "update_separator c line st = Inr st1" by blast
  from assms have "list_all well_formed_rule (check_values c)"
    by (simp add: well_formed_check_def)
  from well_formed_scan_values[OF this, of line st1] u show ?thesis
    by (simp add: scan_line_def)
qed

lemma well_formed_scan_lines:
  "well_formed_check c \<Longrightarrow> \<exists>st'. scan_lines c lines st = Inr st'"
proof (induction lines arbitrary: st)
  case Nil
  then show ?case by simp
next
  case (Cons l ls)
  from well_formed_scan_line[OF Cons.prems, of l st]
  obtain st1 where "scan_line c l st = Inr st1" by blast
  with Cons.IH[OF Cons.prems, of st1] show ?case by simp
qed

lemma arcconf_well_formed: "list_all well_formed_check (binary_checks arcconf)"
  by code_simp

lemma two_strings_value_error: "match_value [a, e] line st = Inl Value_error"
  by (simp add: match_value_def)

lemma megacli_checks_fail:
  "list_all (\<lambda>c. scan_line c line st = Inl Value_error) (binary_checks megacli)"
  by (simp add: megacli_def scan_line_def update_separator_def two_strings_value_error)

section \<open>Runs\<close>

lemma fetch_debug_cong:
  assumes "debug a1" and "debug a2"
    and "read_text w1 (path_join ''mocks'' (check_test c))
           = read_text w2 (path_join ''mocks'' (check_test c))"
  shows "fetch a1 w1 binary c = fetch a2 w2 binary c"
  using assms by (simp add: fetch_def)

lemma run_checks_cong:
  "(\<And>c. c \<in> set cs \<Longrightarrow> fetch a1 w1 binary c = fetch a2 w2 binary c) \<Longrightarrow>
     run_checks a1 w1 binary cs lg ms = run_checks a2 w2 binary cs lg ms"
proof (induction cs arbitrary: lg ms)
  case Nil
  then show ?case by simp
next
  case (Cons c cs)
  have f: "fetch a1 w1 binary c = fetch a2 w2 binary c"
    by (rule Cons.prems) simp
  have r: "run_checks a1 w1 binary cs lg' ms' = run_checks a2 w2 binary cs lg' ms'" for lg' ms'
    by (rule Cons.IH) (simp add: Cons.prems)
  show ?case
    by (simp add: f r Let_def split: prod.splits sum.splits)
qed




















section \<open>Group 1 of a match is text\<close>

lemma bt_marks:
  "bt orig its s mk = Some mk' \<Longrightarrow> marks_set mk' = foldl mark_step (marks_set mk) its"
proof (induction orig its s mk rule: bt.induct)
  case (5 orig a r x xs mk)
  then show ?case by (auto split: if_splits option.splits)
qed (auto simp: marks_set_def split: if_splits)

lemma foldl_mark_step_atom:
  "foldl mark_step k (rev (Atom a q # r)) = foldl mark_step k (rev r)"
  by simp

lemma repeat_inv: "repeat q st = Inr st' \<Longrightarrow> parser_inv st \<Longrightarrow> parser_inv st'"
  by (auto simp: repeat_def parser_inv_def group_1_state_def
           split: list.splits item.splits quant.splits)

lemma push_atom_inv: "push (Atom a q) st = Inr st' \<Longrightarrow> parser_inv st \<Longrightarrow> parser_inv st'"
  by (auto simp: push_def parser_inv_def group_1_state_def)

lemma push_anchor_inv:
  "push i st = Inr st' \<Longrightarrow> i = Bol \<or> i = Eol \<Longrightarrow> parser_inv st \<Longrightarrow> parser_inv st'"
  by (auto simp: push_def parser_inv_def group_1_state_def)

lemma parse_escape_inv: "parse_escape c st = Inr st' \<Longrightarrow> parser_inv st \<Longrightarrow> parser_inv st'"
  by (auto simp: parse_escape_def dest: push_atom_inv split: if_splits)

lemma esc_update_inv: "parser_inv (st\<lparr>esc := b\<rparr>) = parser_inv st"
  by (simp add: parser_inv_def group_1_state_def)

lemma open_inv:
  assumes "parser_inv st"
  shows "parser_inv (st\<lparr>items_rev := Group_open (Suc (ngroups st)) # items_rev st,
                          ngroups := Suc (ngroups st),
                          open_groups := Suc (ngroups st) # open_groups st\<rparr>)"
proof -
  from assms have b: "list_all (\<lambda>n. 1 \<le> n \<and> n \<le> ngroups st) (open_groups st)"
    and d: "distinct (open_groups st)"
    and f: "foldl mark_step (False, False) (rev (items_rev st)) = group_1_state st"
    by (simp_all add: parser_inv_def)
  from b have nin: "Suc (ngroups st) \<notin> set (open_groups st)"
    by (auto simp: list_all_iff)
  from b have b': "list_all (\<lambda>n. 1 \<le> n \<and> n \<le> Suc (ngroups st)) (open_groups st)"
    by (auto simp: list_all_iff)
  from b have z: "ngroups st = 0 \<Longrightarrow> open_groups st = []"
    by (cases "open_groups st") auto
  show ?thesis
    using f nin b' d z
    by (auto simp: parser_inv_def group_1_state_def)
qed

lemma close_inv:
  assumes "parser_inv st" and "open_groups st = n # ns"
  shows "parser_inv (st\<lparr>items_rev := Group_close n # items_rev st, open_groups := ns\<rparr>)"
proof -
  from assms have b: "1 \<le> n" "n \<le> ngroups st"
    "list_all (\<lambda>n. 1 \<le> n \<and> n \<le> ngroups st) ns"
    and d: "n \<notin> set ns" "distinct ns"
    and f: "foldl mark_step (False, False) (rev (items_rev st)) = group_1_state st"
    by (simp_all add: parser_inv_def)
  show ?thesis
    using b d f assms(2)
    by (auto simp: parser_inv_def group_1_state_def)
qed

lemma parse_char_inv: "parse_char c st = Inr st' \<Longrightarrow> parser_inv st \<Longrightarrow> parser_inv st'"
  unfolding parse_char_def
  by (auto simp: esc_update_inv open_inv close_inv
           dest: parse_escape_inv repeat_inv push_atom_inv push_anchor_inv
           split: if_splits list.splits)

lemma parse_chars_inv: "parse_chars cs st = Inr st' \<Longrightarrow> parser_inv st \<Longrightarrow> parser_inv st'"
  by (induction cs arbitrary: st) (auto dest: parse_char_inv split: sum.splits)

lemma parser_inv_init: "parser_inv pstate_init"
  by (simp add: parser_inv_def pstate_init_def group_1_state_def)

lemma group_1_takes_part:
  assumes "re_match p s = Inr (Some m)" and "group_1 m = Inr g"
  shows "\<exists>v. g = Some v"
proof -
  from assms(1) obtain cp mk where c: "re_compile p = Inr cp"
    and b: "bt s (prog cp) s (None, None) = Some mk"
    and m: "m = \<lparr>re_groups = groups cp, re_marks = mk\<rparr>"
    by (auto simp: re_match_def split: sum.splits option.splits)
  from c obtain st where p: "parse_chars p pstate_init = Inr st"
    and e: "open_groups st = []" and cp: "cp = \<lparr>prog = rev (items_rev st), groups = ngroups st\<rparr>"
    by (auto simp: re_compile_def split: sum.splits if_splits)
  from assms(2) m cp have n: "ngroups st \<noteq> 0"
    by (auto simp: group_1_def split: if_splits)
  from parse_chars_inv[OF p parser_inv_init] e n
  have "foldl mark_step (False, False) (rev (items_rev st)) = (True, True)"
    by (simp add: parser_inv_def group_1_state_def)
  with bt_marks[OF b] cp have "marks_set mk = (True, True)"
    by (simp add: marks_set_def)
  then obtain so sc where "mk = (Some so, Some sc)"
    by (cases mk) (auto simp: marks_set_def)
  with assms(2) m show ?thesis
    by (auto simp: group_1_def split: if_splits)
qed


lemma separator_hit_is_text: "separator_hit sep line = Some g \<Longrightarrow> \<exists>v. g = Some v"
  by (auto simp: separator_hit_def dest: group_1_takes_part split: sum.splits option.splits)

lemma nearest_separator_is_text: "nearest_separator sep ls = Some g \<Longrightarrow> \<exists>v. g = Some v"
  by (induction ls) (auto dest: separator_hit_is_text split: option.splits)

section \<open>Patterns of literal labels\<close>

lemma esc_False_id: "\<not> esc st \<Longrightarrow> st\<lparr>esc := False\<rparr> = st"
  by (cases st) simp

lemma parse_plain_char:
  "\<not> is_special c \<Longrightarrow> \<not> esc st \<Longrightarrow>
     parse_char c st = Inr (st\<lparr>items_rev := Atom (Lit c) Once # items_rev st\<rparr>)"
  by (simp add: parse_char_def is_special_def push_def)

lemma parse_escaped_char:
  "\<not> (is_ascii_letter d \<or> is_digit d) \<Longrightarrow> \<not> esc st \<Longrightarrow>
     parse_chars (backslash # d # r) st =
       parse_chars r (st\<lparr>items_rev := Atom (Lit d) Once # items_rev st\<rparr>)"
  by (auto simp: parse_char_def parse_escape_def push_def is_ascii_letter_def is_digit_def
        esc_False_id)

lemma parse_literal:
  "literal_of label = Some t \<Longrightarrow> \<not> esc st \<Longrightarrow>
     parse_chars (label @ rest) st =
       parse_chars rest (st\<lparr>items_rev := rev (lits t) @ items_rev st\<rparr>)"
proof (induction label arbitrary: t st rule: literal_of.induct)
  case 1
  then show ?case by (simp add: lits_def)
next
  case (2 c)
  then show ?case
    by (auto simp: lits_def parse_plain_char split: if_splits)
next
  case (3 c d r)
  show ?case
  proof (cases "c = backslash")
    case True
    with "3.prems" obtain t' where t': "literal_of r = Some t'" and t: "t = d # t'"
      and d: "\<not> (is_ascii_letter d \<or> is_digit d)"
      by (auto split: if_splits)
    from "3.IH"(1)[OF True d t', of "st\<lparr>items_rev := Atom (Lit d) Once # items_rev st\<rparr>"]
      "3.prems"(2) True t d
    show ?thesis by (simp add: parse_escaped_char lits_def del: parse_chars.simps)
  next
    case False
    with "3.prems" obtain t' where t': "literal_of (d # r) = Some t'" and t: "t = c # t'"
      and c: "\<not> is_special c"
      by (auto split: if_splits)
    from "3.IH"(2)[OF False c t', of "st\<lparr>items_rev := Atom (Lit c) Once # items_rev st\<rparr>"]
      "3.prems"(2) t c
    show ?thesis by (simp add: parse_plain_char lits_def)
  qed
qed

lemma compile_attribute_pattern:
  assumes "literal_of label = Some t"
  shows "re_compile (attribute_pattern label) =
           Inr \<lparr>prog = [Bol, Atom Space Star] @ lits t @ after_label, groups = 1\<rparr>"
proof -
  define suffix where
    "suffix = [backslash] @ ''s*:'' @ [backslash] @ ''s*('' @ [backslash] @ ''w+.*)$''"
  have a: "attribute_pattern label = (''^'' @ [backslash] @ ''s*'') @ label @ suffix"
    by (simp add: attribute_pattern_def suffix_def)
  have pre: "parse_chars ((''^'' @ [backslash] @ ''s*'') @ xs) pstate_init =
               parse_chars xs \<lparr>items_rev = [Atom Space Star, Bol], ngroups = 0,
                                open_groups = [], esc = False\<rparr>" for xs
    by (simp add: parse_char_def parse_escape_def push_def repeat_def pstate_init_def)
  have post: "parse_chars suffix
                 \<lparr>items_rev = its, ngroups = 0, open_groups = [], esc = False\<rparr> =
               Inr \<lparr>items_rev = rev after_label @ its, ngroups = 1,
                     open_groups = [], esc = False\<rparr>" for its
    by (simp add: suffix_def parse_char_def parse_escape_def push_def repeat_def
          after_label_def value_prog_def)
  have "parse_chars (attribute_pattern label) pstate_init =
          Inr \<lparr>items_rev = rev after_label @ rev (lits t) @ [Atom Space Star, Bol],
                ngroups = 1, open_groups = [], esc = False\<rparr>"
    unfolding a pre
    by (subst parse_literal[OF assms]) (simp_all add: post)
  then show ?thesis
    by (simp add: re_compile_def pstate_init_def)
qed

lemma bt_lits:
  "bt orig (lits t @ r) s mk =
     (if take (length t) s = t then bt orig r (drop (length t) s) mk else None)"
proof (induction t arbitrary: s)
  case Nil
  then show ?case by (simp add: lits_def)
next
  case (Cons c t)
  then show ?case
    by (cases s) (auto simp: lits_def)
qed

lemma bt_star_sound:
  "bt orig (Atom a Star # r) s mk = Some res \<Longrightarrow>
     \<exists>ws s'. s = ws @ s' \<and> (\<forall>c\<in>set ws. accepts a c) \<and> bt orig r s' mk = Some res"
proof (induction s)
  case Nil
  then show ?case by simp
next
  case (Cons x xs)
  show ?case
  proof (cases "accepts a x \<and> bt orig (Atom a Star # r) xs mk \<noteq> None")
    case True
    with Cons.prems have "bt orig (Atom a Star # r) xs mk = Some res" by auto
    from Cons.IH[OF this] obtain ws s' where "xs = ws @ s'" "\<forall>c\<in>set ws. accepts a c"
      "bt orig r s' mk = Some res" by blast
    with True have "x # xs = (x # ws) @ s' \<and> (\<forall>c\<in>set (x # ws). accepts a c)
                      \<and> bt orig r s' mk = Some res" by simp
    then show ?thesis by blast
  next
    case False
    with Cons.prems have "bt orig r (x # xs) mk = Some res"
      by (auto split: if_splits option.splits)
    then have "x # xs = [] @ (x # xs) \<and> (\<forall>c\<in>set []. accepts a c)
                 \<and> bt orig r (x # xs) mk = Some res" by simp
    then show ?thesis by blast
  qed
qed

lemma bt_star_complete:
  "\<forall>c\<in>set ws. accepts a c \<Longrightarrow> bt orig r s' mk \<noteq> None \<Longrightarrow>
     bt orig (Atom a Star # r) (ws @ s') mk \<noteq> None"
proof (induction ws)
  case Nil
  then show ?case by (cases s') (auto split: option.splits)
next
  case (Cons w ws)
  then show ?case by (auto split: option.splits)
qed

lemma bt_any_star:
  "newline \<notin> set s \<Longrightarrow>
     bt orig [Atom Any_char Star, Group_close (Suc 0), Eol] s mk = Some (fst mk, Some [])"
  by (induction s) auto

lemma bt_word_star:
  "newline \<notin> set s \<Longrightarrow>
     bt orig [Atom Word Star, Atom Any_char Star, Group_close (Suc 0), Eol] s mk
       = Some (fst mk, Some [])"
proof (induction s)
  case Nil
  then show ?case by simp
next
  case (Cons x xs)
  then show ?case using bt_any_star[of "x # xs" orig mk] by simp
qed

lemma bt_value_prog:
  "newline \<notin> set s \<Longrightarrow>
     bt orig value_prog s mk =
       (if s \<noteq> [] \<and> is_word (hd s) then Some (Some s, Some []) else None)"
  by (cases s) (simp_all add: value_prog_def bt_word_star)

lemma word_not_space: "is_word c \<Longrightarrow> \<not> is_space c"
  by (auto simp: is_word_def is_alnum_def is_space_def is_ascii_letter_def is_digit_def Let_def)

lemma colon_not_space: "\<not> is_space CHR '':''"
  by (simp add: is_space_def)

lemma value_after_unique:
  assumes "line = ws1 @ t @ ws2 @ '':'' @ ws3 @ v"
    and "\<forall>c\<in>set (ws1 @ ws2 @ ws3). is_space c"
    and "v \<noteq> []" and "is_word (hd v)"
  shows "v = value_after t line"
proof -
  define t2 where "t2 = dropWhile is_space t"
  have t: "t = takeWhile is_space t @ t2" by (simp add: t2_def)
  from assms(3,4) have v: "dropWhile is_space v = v"
    by (cases v) (auto dest: word_not_space)
  have rest: "dropWhile is_space (ws2 @ '':'' @ ws3 @ v) = '':'' @ ws3 @ v"
    using assms(2) by (simp add: dropWhile_append2 colon_not_space)
  have d1: "drop (length t2) (dropWhile is_space line) = 
              (if t2 = [] then '':'' @ ws3 @ v else ws2 @ '':'' @ ws3 @ v)"
  proof (cases "t2 = []")
    case True
    then have "\<forall>c\<in>set t. is_space c"
      by (simp add: t2_def dropWhile_eq_Nil_conv)
    with assms(2) have "\<forall>c\<in>set (ws1 @ t @ ws2). is_space c" by auto
    then have "dropWhile is_space ((ws1 @ t @ ws2) @ '':'' @ ws3 @ v) = '':'' @ ws3 @ v"
      by (subst dropWhile_append2) (auto simp: colon_not_space)
    with True assms(1) show ?thesis by simp
  next
    case False
    then have h: "\<not> is_space (hd t2)"
      by (metis dropWhile_eq_Nil_conv hd_dropWhile t2_def)
    have "\<forall>c\<in>set (ws1 @ takeWhile is_space t). is_space c"
      using assms(2) by (auto dest: set_takeWhileD)
    then have "dropWhile is_space ((ws1 @ takeWhile is_space t) @ t2 @ ws2 @ '':'' @ ws3 @ v)
                 = dropWhile is_space (t2 @ ws2 @ '':'' @ ws3 @ v)"
      by (subst dropWhile_append2) auto
    also have "\<dots> = t2 @ ws2 @ '':'' @ ws3 @ v"
      using False h by (cases t2) auto
    finally have "dropWhile is_space line = t2 @ ws2 @ '':'' @ ws3 @ v"
      using assms(1) t by (metis append.assoc)
    with False show ?thesis by simp
  qed
  have "dropWhile is_space (drop (length t2) (dropWhile is_space line)) = '':'' @ ws3 @ v"
    using d1 rest by (simp add: colon_not_space)
  then have "value_after t line = dropWhile is_space (ws3 @ v)"
    by (simp add: value_after_def t2_def)
  also have "\<dots> = v"
    using assms(2) v by (simp add: dropWhile_append2)
  finally show ?thesis by simp
qed

lemma bt_attribute_sound:
  assumes "bt line ([Bol, Atom Space Star] @ lits t @ after_label) line (None, None) = Some res"
    and "newline \<notin> set line"
  shows "\<exists>ws1 ws2 ws3 v. line = ws1 @ t @ ws2 @ '':'' @ ws3 @ v \<and>
           (\<forall>c\<in>set (ws1 @ ws2 @ ws3). is_space c) \<and> v \<noteq> [] \<and> is_word (hd v) \<and>
           res = (Some v, Some [])"
proof -
  from assms(1) have "bt line (Atom Space Star # lits t @ after_label) line (None, None) = Some res"
    by simp
  from bt_star_sound[OF this] obtain ws1 s1 where l1: "line = ws1 @ s1"
    and w1: "\<forall>c\<in>set ws1. is_space c"
    and b1: "bt line (lits t @ after_label) s1 (None, None) = Some res"
    by auto
  from b1 have t: "take (length t) s1 = t"
    and b2: "bt line after_label (drop (length t) s1) (None, None) = Some res"
    by (auto simp: bt_lits split: if_splits)
  from t have s1: "s1 = t @ drop (length t) s1"
    by (metis append_take_drop_id)
  from b2 have "bt line (Atom Space Star # Atom (Lit CHR '':'') Once # Atom Space Star # value_prog)
                  (drop (length t) s1) (None, None) = Some res"
    by (simp add: after_label_def)
  from bt_star_sound[OF this] obtain ws2 s2 where l2: "drop (length t) s1 = ws2 @ s2"
    and w2: "\<forall>c\<in>set ws2. is_space c"
    and b3: "bt line (Atom (Lit CHR '':'') Once # Atom Space Star # value_prog) s2 (None, None)
               = Some res"
    by auto
  from b3 obtain s3 where l3: "s2 = CHR '':'' # s3"
    and b4: "bt line (Atom Space Star # value_prog) s3 (None, None) = Some res"
    by (cases s2) (auto split: if_splits)
  from bt_star_sound[OF b4] obtain ws3 v where l4: "s3 = ws3 @ v"
    and w3: "\<forall>c\<in>set ws3. is_space c"
    and b5: "bt line value_prog v (None, None) = Some res"
    by auto
  have line: "line = ws1 @ t @ ws2 @ '':'' @ ws3 @ v"
    using l1 s1 l2 l3 l4 by simp
  with assms(2) have "newline \<notin> set v" by auto
  from b5 bt_value_prog[OF this, of line "(None, None)"]
  have v: "v \<noteq> [] \<and> is_word (hd v) \<and> res = (Some v, Some [])"
    by (auto split: if_splits)
  from w1 w2 w3 have "\<forall>c\<in>set (ws1 @ ws2 @ ws3). is_space c" by auto
  with line v show ?thesis by blast
qed

lemma bt_attribute_complete:
  assumes "line = ws1 @ t @ ws2 @ '':'' @ ws3 @ v"
    and "\<forall>c\<in>set (ws1 @ ws2 @ ws3). is_space c" and "v \<noteq> []" and "is_word (hd v)"
    and "newline \<notin> set line"
  shows "bt line ([Bol, Atom Space Star] @ lits t @ after_label) line (None, None) \<noteq> None"
proof -
  from assms(1,5) have "newline \<notin> set v" by auto
  from bt_value_prog[OF this, of line "(None, None)"] assms(3,4)
  have "bt line value_prog v (None, None) \<noteq> None" by simp
  with assms(2) have "bt line (Atom Space Star # value_prog) (ws3 @ v) (None, None) \<noteq> None"
    by (intro bt_star_complete) auto
  then have "bt line (Atom (Lit CHR '':'') Once # Atom Space Star # value_prog)
               ('':'' @ ws3 @ v) (None, None) \<noteq> None"
    by simp
  with assms(2) have "bt line after_label (ws2 @ '':'' @ ws3 @ v) (None, None) \<noteq> None"
    unfolding after_label_def append_Cons append_Nil
    by (intro bt_star_complete) auto
  then have "bt line (lits t @ after_label) (t @ ws2 @ '':'' @ ws3 @ v) (None, None) \<noteq> None"
    by (simp add: bt_lits)
  with assms(2)
  have "bt line (Atom Space Star # lits t @ after_label) (ws1 @ t @ ws2 @ '':'' @ ws3 @ v)
          (None, None) \<noteq> None"
    by (intro bt_star_complete) auto
  with assms(1) show ?thesis by simp
qed

lemma observed_literal:
  assumes "literal_of label = Some t" and "newline \<notin> set line"
  shows "observed label line =
           (case bt line ([Bol, Atom Space Star] @ lits t @ after_label) line (None, None) of
              None \<Rightarrow> None
            | Some res \<Rightarrow>
                Some (case res of (Some so, Some sc) \<Rightarrow> Some (take (length so - length sc) so)
                              | _ \<Rightarrow> None))"
  by (simp add: observed_def re_match_def compile_attribute_pattern[OF assms(1)] group_1_def
           split: option.splits)

lemma newline_is_linebreak: "is_linebreak newline"
  by (simp add: is_linebreak_def)

lemma splitlines_from_no_linebreak:
  "\<forall>c\<in>set cur. \<not> is_linebreak c \<Longrightarrow> l \<in> set (splitlines_from cur s) \<Longrightarrow>
     \<forall>c\<in>set l. \<not> is_linebreak c"
proof (induction cur s rule: splitlines_from.induct)
  case (1 cur)
  then show ?case by (auto split: if_splits)
next
  case (2 cur c)
  then show ?case by (auto split: if_splits)
next
  case (3 cur c d cs)
  show ?case
  proof (cases "c = CHR 0x0D \<and> d = newline")
    case True
    with "3.prems" have "l = rev cur \<or> l \<in> set (splitlines_from [] cs)" by auto
    then show ?thesis
      using "3.IH"(1)[OF True] "3.prems"(1) by auto
  next
    case False
    show ?thesis
    proof (cases "is_linebreak c")
      case True
      with False "3.prems" have "l = rev cur \<or> l \<in> set (splitlines_from [] (d # cs))" by auto
      then show ?thesis
        using "3.IH"(2)[OF False True] "3.prems"(1) by auto
    next
      case nb: False
      with False "3.prems" have "l \<in> set (splitlines_from (c # cur) (d # cs))" by auto
      then show ?thesis
        using "3.IH"(3)[OF False nb] "3.prems"(1) nb by auto
    qed
  qed
qed

lemma splitlines_no_newline: "line \<in> set (splitlines s) \<Longrightarrow> newline \<notin> set line"
  using splitlines_from_no_linebreak[of "[]" line s] newline_is_linebreak
  by (auto simp: splitlines_def)

section \<open>The sample inputs, evaluated\<close>

lemma arcconf_lookup: "map_of BINARIES ''arcconf'' = Some arcconf"
  by (simp add: BINARIES_def)



lemma sample_pd_before: "scan_lines arcconf_pd pd_before (fresh []) = Inr pd_state_1"
  by code_simp

lemma sample_pd_line: "scan_line arcconf_pd pd_line pd_state_1 = Inr pd_state_2"
  by code_simp

lemma sample_pd_separator:
  "check_separator arcconf_pd =
     Some \<lparr>sep_regex = [backslash] @ ''s+Device #('' @ [backslash] @ ''d+)'',
           sep_label = ''device''\<rparr>"
  by (simp add: arcconf_pd_def)

lemma sample_pd_nearest:
  "nearest_separator
     \<lparr>sep_regex = [backslash] @ ''s+Device #('' @ [backslash] @ ''d+)'', sep_label = ''device''\<rparr>
     (rev (pd_before @ [pd_line])) = Some (Some ''12'')"
  by code_simp

lemma sample_run:
  "run_checks debug_arcconf (fixtures sample_ad sample_ld sample_pd) arcconf
     (binary_checks arcconf) [] []
   = ([log_running arcconf_ad, log_running arcconf_ld, log_running arcconf_pd],
      Inr sample_records)"
  by code_simp

section \<open>The claims\<close>



text \<open>
  C2. The label is not matched as literal text: it is placed in the pattern unescaped.
  The dots of \<open>S.M.A.R.T. warnings\<close> in the catalog of \<open>arcconf\<close> match any character, so a
  line with other characters in their place gives a record. The catalog of \<open>megacli\<close>
  escapes the dots of its own S.M.A.R.T. label, and that label matches the dots only.
\<close>

theorem unescaped_dots_match_any_character:
  "[''S.M.A.R.T. warnings'', ''drive_has_smart_warnings'', ''0''] \<in> set (check_values arcconf_pd) \<and>
   observed ''S.M.A.R.T. warnings'' ''         SxMyAzRxTy warnings     : 7'' = Some (Some ''7'') \<and>
   scan_line arcconf_pd ''         SxMyAzRxTy warnings     : 7'' (fresh []) =
     Inr \<lparr>separator_value = None, separator_label = None,
          metrics = [\<lparr>metric = ''drive_has_smart_warnings'', label_name = None,
                      label_value = None, status = 1, metric_value = Some ''7''\<rparr>]\<rparr> \<and>
   [smart_alert, ''No''] \<in> set (concat (map check_values (binary_checks megacli))) \<and>
   observed smart_alert ''Drive has flagged a S.M.A.R.T alert    : No'' = Some (Some ''No'') \<and>
   observed smart_alert ''Drive has flagged a SxMyAzRxT alert    : No'' = None"
  by code_simp

text \<open>
  C3. In a check with a separator, the records of a line carry the capture of the nearest
  line, at or before it in this check's output, that the separator pattern matches, and
  nothing when there is none. The group state starts absent in every check: the records
  of a run are, check by check, the records of each check's own text.
\<close>

theorem group_value_is_nearest_separator:
  "(check_separator c = Some sep \<longrightarrow> scan_lines c pre (fresh ms) = Inr st1 \<longrightarrow>
      scan_line c line st1 = Inr st2 \<longrightarrow>
      (\<exists>new. metrics st2 = metrics st1 @ new \<and>
         (\<forall>r\<in>set new.
            label_value r =
              (case nearest_separator sep (rev (pre @ [line])) of
                 None \<Rightarrow> None
               | Some g \<Rightarrow> g))))
   \<and> (run_checks a w binary cs lg ms0 = (lg', Inr out) \<longrightarrow>
        out = ms0 @ spec_run_records a w binary cs)"
proof (intro conjI impI)
  assume sep: "check_separator c = Some sep"
    and s1: "scan_lines c pre (fresh ms) = Inr st1"
    and s2: "scan_line c line st1 = Inr st2"
  have "\<forall>r\<in>set (spec_line_records c pre line).
          label_value r =
            (case nearest_separator sep (rev (pre @ [line])) of None \<Rightarrow> None | Some g \<Rightarrow> g)"
    using spec_line_records_group(2)[of _ c pre line] sep
    by (simp add: spec_group_value_def)
  with line_records_after[OF s1 s2]
  show "\<exists>new. metrics st2 = metrics st1 @ new \<and>
         (\<forall>r\<in>set new.
            label_value r =
              (case nearest_separator sep (rev (pre @ [line])) of
                 None \<Rightarrow> None
               | Some g \<Rightarrow> g))"
    by blast
next
  assume "run_checks a w binary cs lg ms0 = (lg', Inr out)"
  then show "out = ms0 @ spec_run_records a w binary cs"
    by (rule run_checks_records)
qed

theorem group_value_is_nearest_separator_witness:
  "(\<exists>sep st1 st2.
      check_separator arcconf_pd = Some sep \<and>
      scan_lines arcconf_pd pd_before (fresh []) = Inr st1 \<and>
      scan_line arcconf_pd pd_line st1 = Inr st2 \<and>
      map label_value (metrics st2) = [Some ''0'', Some ''12''] \<and>
      nearest_separator sep (rev (pd_before @ [pd_line])) = Some (Some ''12'') \<and>
      (\<exists>new. metrics st2 = metrics st1 @ new \<and>
         (\<forall>r\<in>set new.
            label_value r =
              (case nearest_separator sep (rev (pd_before @ [pd_line])) of
                 None \<Rightarrow> None
               | Some g \<Rightarrow> g))))
   \<and> (\<exists>lg' out.
        run_checks debug_arcconf (fixtures sample_ad sample_ld sample_pd) arcconf
          (binary_checks arcconf) [] [] = (lg', Inr out) \<and>
        map label_value out = [None, None, Some ''0'', Some ''12''] \<and>
        out = [] @ spec_run_records debug_arcconf (fixtures sample_ad sample_ld sample_pd)
                     arcconf (binary_checks arcconf))"
proof -
  let ?sep = "\<lparr>sep_regex = [backslash] @ ''s+Device #('' @ [backslash] @ ''d+)'',
               sep_label = ''device''\<rparr>"
  let ?w = "fixtures sample_ad sample_ld sample_pd"
  let ?lg = "[log_running arcconf_ad, log_running arcconf_ld, log_running arcconf_pd]"
  have m: "map label_value (metrics pd_state_2) = [Some ''0'', Some ''12'']"
    by (simp add: pd_state_2_def)
  have mo: "map label_value sample_records = [None, None, Some ''0'', Some ''12'']"
    by (simp add: sample_records_def)
  note t = group_value_is_nearest_separator[of arcconf_pd ?sep pd_before "[]" pd_state_1
      pd_line pd_state_2 debug_arcconf ?w arcconf "binary_checks arcconf" "[]" "[]" ?lg
      sample_records]
  from t sample_pd_separator sample_pd_before sample_pd_line
  have c1: "\<exists>new. metrics pd_state_2 = metrics pd_state_1 @ new \<and>
         (\<forall>r\<in>set new.
            label_value r =
              (case nearest_separator ?sep (rev (pd_before @ [pd_line])) of
                 None \<Rightarrow> None
               | Some g \<Rightarrow> g))"
    by (rule_tac mp[OF mp[OF mp[OF conjunct1]]])
  from t sample_run
  have c2: "sample_records = [] @ spec_run_records debug_arcconf ?w arcconf (binary_checks arcconf)"
    by (rule_tac mp[OF conjunct2])
  have p1: "\<exists>sep st1 st2.
      check_separator arcconf_pd = Some sep \<and>
      scan_lines arcconf_pd pd_before (fresh []) = Inr st1 \<and>
      scan_line arcconf_pd pd_line st1 = Inr st2 \<and>
      map label_value (metrics st2) = [Some ''0'', Some ''12''] \<and>
      nearest_separator sep (rev (pd_before @ [pd_line])) = Some (Some ''12'') \<and>
      (\<exists>new. metrics st2 = metrics st1 @ new \<and>
         (\<forall>r\<in>set new.
            label_value r =
              (case nearest_separator sep (rev (pd_before @ [pd_line])) of
                 None \<Rightarrow> None
               | Some g \<Rightarrow> g)))"
    by (rule exI[of _ ?sep], rule exI[of _ pd_state_1], rule exI[of _ pd_state_2])
       (rule conjI[OF sample_pd_separator conjI[OF sample_pd_before
          conjI[OF sample_pd_line conjI[OF m conjI[OF sample_pd_nearest c1]]]]])
  have p2: "\<exists>lg' out.
        run_checks debug_arcconf ?w arcconf (binary_checks arcconf) [] [] = (lg', Inr out) \<and>
        map label_value out = [None, None, Some ''0'', Some ''12''] \<and>
        out = [] @ spec_run_records debug_arcconf ?w arcconf (binary_checks arcconf)"
    by (rule exI[of _ ?lg], rule exI[of _ sample_records])
       (rule conjI[OF sample_run conjI[OF mo c2]])
  from p1 p2 show ?thesis by (rule conjI)
qed

text \<open>
  C4. The profile \<open>megacli\<close> cannot be processed: its rules are lists of two strings and
  the engine unpacks three, so every check of \<open>megacli\<close> raises ValueError on its first
  line, whatever the line, and a run for \<open>megacli\<close> on a fixture with a line exits with
  status 1 and no metric. The profile \<open>arcconf\<close> is processed without error, whatever the
  lines.
\<close>

theorem megacli_value_error:
  "(\<forall>line st. list_all (\<lambda>c. scan_line c line st = Inl Value_error) (binary_checks megacli)) \<and>
   (\<forall>lines st. list_all (\<lambda>c. \<exists>st'. scan_lines c lines st = Inr st') (binary_checks arcconf)) \<and>
   main \<lparr>vendor_binary = ''megacli'', debug = True\<rparr>
     \<lparr>isfile = (\<lambda>p. False),
      read_text = (\<lambda>p. Some (''    Status                        : Normal'' @ [newline])),
      subprocess_run = (\<lambda>argv. None)\<rparr>
   = \<lparr>exit_status = 1, logged = [(DEBUG, ''Running check: Enclosure state'')], printed = []\<rparr> \<and>
   main \<lparr>vendor_binary = ''arcconf'', debug = True\<rparr>
     \<lparr>isfile = (\<lambda>p. False),
      read_text = (\<lambda>p. Some (''    Controller Status             : Optimal'' @ [newline])),
      subprocess_run = (\<lambda>argv. None)\<rparr>
   = \<lparr>exit_status = 0,
      logged = [(DEBUG, ''Running check: Controller status''),
                (DEBUG, ''Running check: Logical device state''),
                (DEBUG, ''Running check: Physical device state''),
                (INFO, ''Finished checks for vendor arcconf'')],
      printed = [''arcconf_controller_has_error{state='' @ [dquote] @ ''Optimal'' @ [dquote]
                   @ ''} 0'']\<rparr>"
proof (intro conjI allI)
  fix line st
  show "list_all (\<lambda>c. scan_line c line st = Inl Value_error) (binary_checks megacli)"
    by (rule megacli_checks_fail)
next
  fix lines st
  show "list_all (\<lambda>c. \<exists>st'. scan_lines c lines st = Inr st') (binary_checks arcconf)"
    using arcconf_well_formed
    by (auto simp: list_all_iff intro: well_formed_scan_lines)
next
  show "main \<lparr>vendor_binary = ''megacli'', debug = True\<rparr>
     \<lparr>isfile = (\<lambda>p. False),
      read_text = (\<lambda>p. Some (''    Status                        : Normal'' @ [newline])),
      subprocess_run = (\<lambda>argv. None)\<rparr>
   = \<lparr>exit_status = 1, logged = [(DEBUG, ''Running check: Enclosure state'')], printed = []\<rparr>"
    by code_simp
next
  show "main \<lparr>vendor_binary = ''arcconf'', debug = True\<rparr>
     \<lparr>isfile = (\<lambda>p. False),
      read_text = (\<lambda>p. Some (''    Controller Status             : Optimal'' @ [newline])),
      subprocess_run = (\<lambda>argv. None)\<rparr>
   = \<lparr>exit_status = 0,
      logged = [(DEBUG, ''Running check: Controller status''),
                (DEBUG, ''Running check: Logical device state''),
                (DEBUG, ''Running check: Physical device state''),
                (INFO, ''Finished checks for vendor arcconf'')],
      printed = [''arcconf_controller_has_error{state='' @ [dquote] @ ''Optimal'' @ [dquote]
                   @ ''} 0'']\<rparr>"
    by code_simp
qed

text \<open>
  C5, as the claim states it, fails: the pattern asks for a word character where the
  value starts, so a value that starts with \<open>-\<close> or \<open>(\<close> is not matched.
\<close>

theorem value_not_starting_with_word_character_counterexample:
  "\<not> is_space CHR ''-'' \<and> \<not> is_space CHR ''('' \<and>
   ''State : -1'' = [] @ ''State'' @ '' '' @ '':'' @ '' '' @ ''-1'' \<and>
   observed ''State'' ''State : -1'' = None \<and>
   observed ''State'' ''State : (unknown)'' = None"
  by code_simp

text \<open>
  C5, amended. For a label that is literal text and a line of the output (a line holds
  no newline), the rule matches exactly when the line is white space, the label, white
  space, a colon, white space and then a value that starts with a word character; the
  observed value is that whole rest of the line, \<open>value_after\<close>.
\<close>

theorem value_starts_with_a_word_character:
  assumes "literal_of label = Some t" and "newline \<notin> set line"
  shows "(observed label line = Some (Some v) \<longleftrightarrow>
            (\<exists>ws1 ws2 ws3. line = ws1 @ t @ ws2 @ '':'' @ ws3 @ v \<and>
               (\<forall>c\<in>set (ws1 @ ws2 @ ws3). is_space c) \<and> v \<noteq> [] \<and> is_word (hd v)))
         \<and> (observed label line = None \<or> observed label line = Some (Some (value_after t line)))"
proof -
  let ?b = "bt line ([Bol, Atom Space Star] @ lits t @ after_label) line (None, None)"
  note o = observed_literal[OF assms]
  have sound: "\<exists>ws1 ws2 ws3. line = ws1 @ t @ ws2 @ '':'' @ ws3 @ u \<and>
               (\<forall>c\<in>set (ws1 @ ws2 @ ws3). is_space c) \<and> u \<noteq> [] \<and> is_word (hd u)"
    if "observed label line = Some g" "g = Some u \<or> g = None" for g u
  proof -
    from that(1) o obtain res where r: "?b = Some res"
      by (auto split: option.splits)
    from bt_attribute_sound[OF r assms(2)] obtain ws1 ws2 ws3 v' where
      d: "line = ws1 @ t @ ws2 @ '':'' @ ws3 @ v'" "\<forall>c\<in>set (ws1 @ ws2 @ ws3). is_space c"
         "v' \<noteq> []" "is_word (hd v')" and res: "res = (Some v', Some [])"
      by blast
    from that o r res have "u = v'" by auto
    with d show ?thesis by blast
  qed
  have never_none: "observed label line \<noteq> Some None"
  proof
    assume h: "observed label line = Some None"
    from h o obtain res where r: "?b = Some res"
      by (auto split: option.splits)
    from bt_attribute_sound[OF r assms(2)] obtain v' where "res = (Some v', Some [])" by blast
    with h o r show False by simp
  qed
  have complete: "observed label line = Some (Some u)"
    if d: "line = ws1 @ t @ ws2 @ '':'' @ ws3 @ u" "\<forall>c\<in>set (ws1 @ ws2 @ ws3). is_space c"
         "u \<noteq> []" "is_word (hd u)" for ws1 ws2 ws3 u
  proof -
    from bt_attribute_complete[OF d assms(2)] obtain res where r: "?b = Some res" by auto
    from bt_attribute_sound[OF r assms(2)] obtain ws1' ws2' ws3' v' where
      d': "line = ws1' @ t @ ws2' @ '':'' @ ws3' @ v'"
          "\<forall>c\<in>set (ws1' @ ws2' @ ws3'). is_space c" "v' \<noteq> []" "is_word (hd v')"
      and res: "res = (Some v', Some [])"
      by blast
    have "u = v'"
      using value_after_unique[OF d] value_after_unique[OF d'] by simp
    with o r res show ?thesis by simp
  qed
  have iff: "observed label line = Some (Some v) \<longleftrightarrow>
            (\<exists>ws1 ws2 ws3. line = ws1 @ t @ ws2 @ '':'' @ ws3 @ v \<and>
               (\<forall>c\<in>set (ws1 @ ws2 @ ws3). is_space c) \<and> v \<noteq> [] \<and> is_word (hd v))"
    using sound[of "Some v" v] complete by blast
  have formula: "observed label line = None \<or> observed label line = Some (Some (value_after t line))"
  proof (cases "observed label line")
    case None
    then show ?thesis by simp
  next
    case (Some g)
    with never_none obtain u where g: "g = Some u" by (cases g) auto
    from sound[OF Some, of u] g obtain ws1 ws2 ws3 where
      "line = ws1 @ t @ ws2 @ '':'' @ ws3 @ u" "\<forall>c\<in>set (ws1 @ ws2 @ ws3). is_space c"
      "u \<noteq> []" "is_word (hd u)" by blast
    from value_after_unique[OF this] Some g show ?thesis by simp
  qed
  from iff formula show ?thesis by (rule conjI)
qed

theorem value_starts_with_a_word_character_witness:
  "literal_of ''State'' = Some ''State'' \<and>
   newline \<notin> set ''   State    : Online, Spun Up'' \<and>
   (\<exists>ws1 ws2 ws3. ''   State    : Online, Spun Up''
        = ws1 @ ''State'' @ ws2 @ '':'' @ ws3 @ ''Online, Spun Up'' \<and>
      list_all is_space (ws1 @ ws2 @ ws3) \<and> is_word (hd ''Online, Spun Up'')) \<and>
   observed ''State'' ''   State    : Online, Spun Up'' = Some (Some ''Online, Spun Up'') \<and>
   value_after ''State'' ''   State    : Online, Spun Up'' = ''Online, Spun Up''"
proof -
  let ?line = "''   State    : Online, Spun Up''"
  have l: "literal_of ''State'' = Some ''State''"
    by (simp add: is_special_def)
  have n: "newline \<notin> set ?line" by simp
  have sp: "is_space CHR '' ''" by (simp add: is_space_def)
  have w: "is_word CHR ''O''"
    by (simp add: is_word_def is_alnum_def is_ascii_letter_def)
  have eq: "?line = ''   '' @ ''State'' @ ''    '' @ '':'' @ '' '' @ ''Online, Spun Up''"
    by simp
  have d: "\<exists>ws1 ws2 ws3. ?line = ws1 @ ''State'' @ ws2 @ '':'' @ ws3 @ ''Online, Spun Up'' \<and>
             (\<forall>c\<in>set (ws1 @ ws2 @ ws3). is_space c) \<and> ''Online, Spun Up'' \<noteq> [] \<and>
             is_word (hd ''Online, Spun Up'')"
    by (rule exI[of _ "''   ''"], rule exI[of _ "''    ''"], rule exI[of _ "'' ''"])
       (simp add: sp w)
  note t = value_starts_with_a_word_character[OF l n, of "''Online, Spun Up''"]
  from t d have o: "observed ''State'' ?line = Some (Some ''Online, Spun Up'')"
    by blast
  with t have va: "value_after ''State'' ?line = ''Online, Spun Up''"
    by simp
  have d': "\<exists>ws1 ws2 ws3. ?line = ws1 @ ''State'' @ ws2 @ '':'' @ ws3 @ ''Online, Spun Up'' \<and>
             list_all is_space (ws1 @ ws2 @ ws3) \<and> is_word (hd ''Online, Spun Up'')"
    by (rule exI[of _ "''   ''"], rule exI[of _ "''    ''"], rule exI[of _ "'' ''"])
       (simp add: sp w)
  from l n d' o va show ?thesis by (intro conjI)
qed




text \<open>
  C7, as the claim states it, fails: a line before the first separator line of a check
  with a separator gives a record without a group label.
\<close>

theorem group_label_counterexample:
  "check_separator arcconf_pd \<noteq> None \<and>
   (\<exists>st'. scan_lines arcconf_pd [''   State : Online''] (fresh []) = Inr st' \<and>
      map metric (metrics st') = [''drive_offline''] \<and>
      map label_name (metrics st') = [None])"
proof -
  have h: "scan_lines arcconf_pd [''   State : Online''] (fresh []) =
     Inr \<lparr>separator_value = None, separator_label = None,
          metrics =
            [\<lparr>metric = ''drive_offline'', label_name = None, label_value = None,
              status = 0, metric_value = Some ''Online''\<rparr>]\<rparr>"
    by code_simp
  have "check_separator arcconf_pd \<noteq> None" by (simp add: arcconf_pd_def)
  with h show ?thesis by simp
qed

text \<open>
  C7, amended. The records of a line carry the separator's label once a line at or before
  it, in this check's output, has matched the separator pattern; before that, and in a
  check without a separator, they carry none. A record has a label exactly when it has a
  group value.
\<close>

theorem group_label_follows_separator:
  assumes "scan_lines c pre (fresh ms) = Inr st1" and "scan_line c line st1 = Inr st2"
  shows "\<exists>new. metrics st2 = metrics st1 @ new \<and>
           (\<forall>r\<in>set new.
              label_name r =
                (case check_separator c of
                   None \<Rightarrow> None
                 | Some sep \<Rightarrow>
                     (case nearest_separator sep (rev (pre @ [line])) of
                        None \<Rightarrow> None
                      | Some g \<Rightarrow> Some (sep_label sep))) \<and>
              (label_name r = None \<longleftrightarrow> label_value r = None))"
proof -
  have "label_name r =
          (case check_separator c of
             None \<Rightarrow> None
           | Some sep \<Rightarrow>
               (case nearest_separator sep (rev (pre @ [line])) of
                  None \<Rightarrow> None
                | Some g \<Rightarrow> Some (sep_label sep))) \<and>
        (label_name r = None \<longleftrightarrow> label_value r = None)"
    if "r \<in> set (spec_line_records c pre line)" for r
    using spec_line_records_group[OF that]
    by (auto simp: spec_group_label_def spec_group_value_def
             dest: nearest_separator_is_text separator_hit_is_text split: option.splits)
  with line_records_after[OF assms] show ?thesis by blast
qed

theorem group_label_follows_separator_witness:
  "\<exists>st1 st2.
      scan_lines arcconf_pd pd_before (fresh []) = Inr st1 \<and>
      scan_line arcconf_pd pd_line st1 = Inr st2 \<and>
      map label_name (metrics st2) = [Some ''device'', Some ''device''] \<and>
      (\<exists>new. metrics st2 = metrics st1 @ new \<and>
         (\<forall>r\<in>set new.
            label_name r =
              (case check_separator arcconf_pd of
                 None \<Rightarrow> None
               | Some sep \<Rightarrow>
                   (case nearest_separator sep (rev (pd_before @ [pd_line])) of
                      None \<Rightarrow> None
                    | Some g \<Rightarrow> Some (sep_label sep))) \<and>
            (label_name r = None \<longleftrightarrow> label_value r = None)))"
proof -
  have m: "map label_name (metrics pd_state_2) = [Some ''device'', Some ''device'']"
    by (simp add: pd_state_2_def)
  note c = group_label_follows_separator[OF sample_pd_before sample_pd_line]
  show ?thesis
    by (rule exI[of _ pd_state_1], rule exI[of _ pd_state_2])
       (rule conjI[OF sample_pd_before conjI[OF sample_pd_line conjI[OF m c]]])
qed

text \<open>
  C8. A check's scan yields the records of the specification: every line in order and, on
  each line, every rule in order, whether or not an earlier rule matched. So the number
  of records is the number of pairs of a line and a rule that matches it: two lines with
  the same label give two records, and two rules that match one line give two.
\<close>

theorem every_rule_on_every_line:
  assumes "scan_lines c lines (fresh ms) = Inr st'"
  shows "metrics st' = ms @ spec_check_records c lines \<and>
         length (metrics st') =
           length ms +
           sum_list (map (\<lambda>line. length (filter (\<lambda>v. fires v line) (check_values c))) lines)"
  using scan_lines_fresh[OF assms]
  by (simp add: spec_check_records_def length_spec_records_from)

theorem every_rule_on_every_line_witness:
  "\<exists>st'. scan_lines overlapping [''State : Online'', ''State : Online''] (fresh []) = Inr st' \<and>
     map metric (metrics st') = [''first'', ''second'', ''first'', ''second''] \<and>
     metrics st' = [] @ spec_check_records overlapping [''State : Online'', ''State : Online''] \<and>
     length (metrics st') =
       length ([] :: metric_record list) +
       sum_list (map (\<lambda>line. length (filter (\<lambda>v. fires v line) (check_values overlapping)))
                   [''State : Online'', ''State : Online''])"
proof -
  let ?S = "\<lparr>separator_value = None, separator_label = None,
          metrics =
            [\<lparr>metric = ''first'', label_name = None, label_value = None,
              status = 0, metric_value = Some ''Online''\<rparr>,
             \<lparr>metric = ''second'', label_name = None, label_value = None,
              status = 1, metric_value = Some ''Online''\<rparr>,
             \<lparr>metric = ''first'', label_name = None, label_value = None,
              status = 0, metric_value = Some ''Online''\<rparr>,
             \<lparr>metric = ''second'', label_name = None, label_value = None,
              status = 1, metric_value = Some ''Online''\<rparr>]\<rparr>"
  have h: "scan_lines overlapping [''State : Online'', ''State : Online''] (fresh []) = Inr ?S"
    by code_simp
  have d: "map metric (metrics ?S) = [''first'', ''second'', ''first'', ''second'']"
    by simp
  note c = every_rule_on_every_line[OF h]
  show ?thesis
    by (rule exI[of _ ?S]) (rule conjI[OF h conjI[OF d c]])
qed

text \<open>
  C9. With \<open>--debug\<close> the run is a function of the fixtures: two runs for the same profile
  on machines whose fixture files for that profile hold the same text give the same
  records in the same order, the same log and the same printed lines, whatever else
  differs between the machines.
\<close>

theorem fixture_run_is_a_function_of_the_fixtures:
  assumes "debug a1" and "debug a2" and "vendor_binary a1 = vendor_binary a2"
    and "\<forall>binary c. map_of BINARIES (vendor_binary a1) = Some binary \<longrightarrow>
           c \<in> set (binary_checks binary) \<longrightarrow>
           read_text w1 (path_join ''mocks'' (check_test c))
             = read_text w2 (path_join ''mocks'' (check_test c))"
  shows "collect_metrics a1 w1 = collect_metrics a2 w2 \<and> main a1 w1 = main a2 w2"
proof -
  have rc: "run_checks a1 w1 binary (binary_checks binary) lg ms
              = run_checks a2 w2 binary (binary_checks binary) lg ms"
    if "map_of BINARIES (vendor_binary a1) = Some binary" for binary lg ms
  proof (rule run_checks_cong)
    fix c assume "c \<in> set (binary_checks binary)"
    with assms(4) that
    have "read_text w1 (path_join ''mocks'' (check_test c))
            = read_text w2 (path_join ''mocks'' (check_test c))"
      by blast
    with assms(1,2) show "fetch a1 w1 binary c = fetch a2 w2 binary c"
      by (rule fetch_debug_cong)
  qed
  have c: "collect_metrics a1 w1 = collect_metrics a2 w2"
  proof (cases "map_of BINARIES (vendor_binary a1)")
    case None
    with assms(3) show ?thesis by (simp add: collect_metrics_def)
  next
    case (Some binary)
    with assms(1-3) rc[OF Some] show ?thesis by (simp add: collect_metrics_def)
  qed
  have p: "print_all_metrics a1 ms = print_all_metrics a2 ms" for ms
    using assms(3) by (simp add: print_all_metrics_def print_metric_def split: option.splits)
  from c p show ?thesis by (simp add: main_def split: prod.splits sum.splits)
qed

theorem fixture_run_is_a_function_of_the_fixtures_witness:
  "debug debug_arcconf \<and>
   isfile (fixtures sample_ad sample_ld sample_pd) (binary_path arcconf)
     \<noteq> isfile other_machine (binary_path arcconf) \<and>
   collect_metrics debug_arcconf (fixtures sample_ad sample_ld sample_pd)
     = collect_metrics debug_arcconf other_machine \<and>
   main debug_arcconf (fixtures sample_ad sample_ld sample_pd) = main debug_arcconf other_machine"
proof -
  have d: "debug debug_arcconf" by (simp add: debug_arcconf_def)
  have f: "\<forall>binary c. map_of BINARIES (vendor_binary debug_arcconf) = Some binary \<longrightarrow>
           c \<in> set (binary_checks binary) \<longrightarrow>
           read_text (fixtures sample_ad sample_ld sample_pd) (path_join ''mocks'' (check_test c))
             = read_text other_machine (path_join ''mocks'' (check_test c))"
    by (auto simp: debug_arcconf_def arcconf_lookup arcconf_def arcconf_ad_def arcconf_ld_def
          arcconf_pd_def path_join_def fixtures_def other_machine_def)
  have n: "isfile (fixtures sample_ad sample_ld sample_pd) (binary_path arcconf)
     \<noteq> isfile other_machine (binary_path arcconf)"
    by (simp add: fixtures_def other_machine_def)
  from fixture_run_is_a_function_of_the_fixtures[OF d d refl f] d n show ?thesis by simp
qed

text \<open>
  C10. In live mode the program's own test exits only on empty output with return code
  0: a return code other than 0 has raised CalledProcessError before the test.
\<close>

theorem returncode_test_is_dead:
  assumes "\<not> debug a"
  shows "(snd (fetch a w binary c) = Inl (Sys_exit 1) \<longleftrightarrow>
            subprocess_run w (binary_path binary # check_args c) = Some (Completed 0 []))
         \<and> (\<forall>returncode stdout.
               subprocess_run w (binary_path binary # check_args c)
                 = Some (Completed returncode stdout) \<longrightarrow> returncode \<noteq> 0 \<longrightarrow>
               fetch a w binary c = ([], Inl (Called_process_error returncode)))"
  using assms
  by (auto simp: fetch_def split: option.splits completed_process.splits)

theorem returncode_test_is_dead_witness:
  "\<not> debug \<lparr>vendor_binary = ''arcconf'', debug = False\<rparr> \<and>
   fetch \<lparr>vendor_binary = ''arcconf'', debug = False\<rparr>
     (live_world (\<lambda>argv. Some (Completed 3 ''Controller Status : Optimal''))) arcconf arcconf_ad
     = ([], Inl (Called_process_error 3)) \<and>
   snd (fetch \<lparr>vendor_binary = ''arcconf'', debug = False\<rparr>
     (live_world (\<lambda>argv. Some (Completed 0 []))) arcconf arcconf_ad) = Inl (Sys_exit 1)"
proof -
  let ?a = "\<lparr>vendor_binary = ''arcconf'', debug = False\<rparr>"
  have d: "\<not> debug ?a" by simp
  note t1 = returncode_test_is_dead[OF d, of "live_world (\<lambda>argv. Some (Completed 3 ''Controller Status : Optimal''))" arcconf arcconf_ad]
  note t2 = returncode_test_is_dead[OF d, of "live_world (\<lambda>argv. Some (Completed 0 []))" arcconf arcconf_ad]
  have r1: "fetch ?a (live_world (\<lambda>argv. Some (Completed 3 ''Controller Status : Optimal''))) arcconf arcconf_ad
     = ([], Inl (Called_process_error 3))"
    using t1 by (simp add: live_world_def)
  have r2: "snd (fetch ?a (live_world (\<lambda>argv. Some (Completed 0 []))) arcconf arcconf_ad) = Inl (Sys_exit 1)"
    using t2 by (simp add: live_world_def)
  from d r1 r2 show ?thesis by simp
qed

end
